theory Spec2Isabelle
  imports Main "HOL-Library.Word"
begin

section \<open>C integers and characters\<close>

text \<open>
  The two programs, \<^verbatim>\<open>lmasm.c\<close> (assembler) and \<^verbatim>\<open>lmc.c\<close> (emulator), compute
  with C \<^verbatim>\<open>int\<close>. Values are modelled as \<open>int\<close>; where a computed value can
  overflow a 32-bit \<^verbatim>\<open>int\<close> (a decimal literal, the accumulator) the model stops with
  an explicit fault. Counters of lines, mailboxes and bytes, which are bounded by the
  length of the input, are not checked. Division and remainder truncate towards zero as
  in C. Bytes of the object image are \<open>8 word\<close>.
\<close>

type_synonym byte = "8 word"

definition INT_MAX :: int where
  "INT_MAX = 2147483647"

definition INT_MIN :: int where
  "INT_MIN = - 2147483648"

definition c_div :: "int \<Rightarrow> int \<Rightarrow> int" where
  "c_div x y = sgn x * sgn y * (\<bar>x\<bar> div \<bar>y\<bar>)"

definition c_mod :: "int \<Rightarrow> int \<Rightarrow> int" where
  "c_mod x y = x - y * c_div x y"

text \<open>The \<^verbatim>\<open>ctype.h\<close> predicates in the C locale, on the character code.\<close>

definition code :: "char \<Rightarrow> nat" where
  "code c = of_char c"

definition newline :: char where
  "newline = CHR 0x0A"

definition isblank :: "char \<Rightarrow> bool" where
  "isblank c = (c = CHR '' '' \<or> c = CHR 0x09)"

definition isspace :: "char \<Rightarrow> bool" where
  "isspace c = (c = CHR '' '' \<or> (9 \<le> code c \<and> code c \<le> 13))"

definition isdigit :: "char \<Rightarrow> bool" where
  "isdigit c = (48 \<le> code c \<and> code c \<le> 57)"

definition isupper :: "char \<Rightarrow> bool" where
  "isupper c = (65 \<le> code c \<and> code c \<le> 90)"

definition isalpha :: "char \<Rightarrow> bool" where
  "isalpha c = (isupper c \<or> (97 \<le> code c \<and> code c \<le> 122))"

definition islabel :: "char \<Rightarrow> bool" where
  "islabel c = (isalpha c \<or> isdigit c \<or> c = CHR ''_'')"

definition tolower :: "char \<Rightarrow> nat" where
  "tolower c = (if isupper c then code c + 32 else code c)"

text \<open>A C string ends at its first NUL; \<^verbatim>\<open>strcasecmp\<close> compares the lower-cased
  strings.\<close>

definition c_str :: "string \<Rightarrow> string" where
  "c_str s = takeWhile (\<lambda>c. code c \<noteq> 0) s"

definition strcasecmp_eq :: "string \<Rightarrow> string \<Rightarrow> bool" where
  "strcasecmp_eq s t = (map tolower (c_str s) = map tolower (c_str t))"

section \<open>The assembler (lmasm.c)\<close>

subsection \<open>Data\<close>

definition MAX_LABEL_LEN :: nat where
  "MAX_LABEL_LEN = 32"

definition MAX_OPCODE_LEN :: nat where
  "MAX_OPCODE_LEN = 3"

definition MAX_NUM_DIGITS :: nat where
  "MAX_NUM_DIGITS = 5"

datatype lmasm_arg_format = NO_ARGUMENT | ONE_ARGUMENT | MAYBE_ARGUMENT

text \<open>The \<^verbatim>\<open>write\<close> function pointer of an opcode is one of three functions.\<close>

datatype lmasm_writer = Write_dat | Write_op | Write_io

record lmasm_conf =
  num_digits :: nat
  max_addr :: int
  max_dat :: int

text \<open>\<^verbatim>\<open>op_name\<close> is \<open>None\<close> for the NULL name of the descriptor that
  \<^verbatim>\<open>lmasm_write_io\<close> synthesises.\<close>

record lmasm_opcode =
  op_name :: "string option"
  op_write :: lmasm_writer
  op_code :: int
  op_arg_format :: lmasm_arg_format

record lmasm_label =
  label_name :: string
  label_addr :: int

text \<open>
  Every way the assembler stops with exit code 1, with the values its message prints.
  Three constructors stand for undefined behaviour of the C program rather than for a
  message: \<open>Label_table_overrun\<close> (the table is reallocated with
  \<^verbatim>\<open>label_buf_size * sizeof (void *)\<close> bytes when the 32nd label is defined, fewer than
  the labels already stored occupy, and the new label is written past the block),
  \<open>Digit_buffer_overrun\<close> (more than \<^verbatim>\<open>MAX_NUM_DIGITS\<close> digits encoded into the local
  buffer) and \<open>Integer_overflow\<close> (a decimal literal that leaves the range of \<^verbatim>\<open>int\<close>).
\<close>

datatype lmasm_error =
    Expected_end_of_line int
  | Unexpected_slash int
  | Label_begins_with_digit int
  | Label_too_long int
  | Invalid_address_field int
  | No_such_label int string
  | Dat_out_of_range int
  | Mailbox_out_of_range "string option" int
  | Write_failed
  | Program_too_long int int
  | Unexpected_EOF
  | Opcode_too_long int
  | No_such_instruction int string
  | Label_table_overrun
  | Digit_buffer_overrun
  | Integer_overflow

text \<open>
  The output file: the bytes written so far and the number of bytes the device still
  accepts; \<^verbatim>\<open>fputc\<close> returns EOF (here \<open>None\<close>) when no room is left. \<^verbatim>\<open>fputc\<close>
  converts its argument to \<^verbatim>\<open>unsigned char\<close>.
\<close>

record ofile =
  written :: "byte list"
  room :: nat

definition fputc :: "int \<Rightarrow> ofile \<Rightarrow> ofile option" where
  "fputc c f =
     (if room f = 0 then None
      else Some \<lparr>written = written f @ [word_of_int c], room = room f - 1\<rparr>)"

subsection \<open>Encoders\<close>

text \<open>\<^verbatim>\<open>encode_decimal\<close> fills \<^verbatim>\<open>buf[num_digits - 1]\<close> down to \<^verbatim>\<open>buf[0]\<close>; the
  result is the buffer's first \<open>num_digits\<close> cells.\<close>

fun encode_decimal :: "int \<Rightarrow> nat \<Rightarrow> int list" where
  "encode_decimal n 0 = []"
| "encode_decimal n (Suc k) = encode_decimal (c_div n 10) k @ [c_mod n 10]"

text \<open>The loops \<^verbatim>\<open>for (...) { rc = fputc(buf[i], ...); if (EOF == rc) return rc; }\<close>.\<close>

fun fputc_all :: "int list \<Rightarrow> ofile \<Rightarrow> ofile option" where
  "fputc_all [] f = Some f"
| "fputc_all (b # bs) f =
     (case fputc b f of None \<Rightarrow> None | Some f' \<Rightarrow> fputc_all bs f')"

definition lmasm_write_dat ::
  "lmasm_opcode \<Rightarrow> lmasm_conf \<Rightarrow> int \<Rightarrow> ofile \<Rightarrow> lmasm_error + ofile" where
  "lmasm_write_dat self conf v f =
     (if v < 0 \<or> v > max_dat conf then Inl (Dat_out_of_range v)
      else if num_digits conf > MAX_NUM_DIGITS then Inl Digit_buffer_overrun
      else (case fputc_all (encode_decimal v (num_digits conf)) f of
              None \<Rightarrow> Inl Write_failed
            | Some f' \<Rightarrow> Inr f'))"

definition lmasm_write_op ::
  "lmasm_opcode \<Rightarrow> lmasm_conf \<Rightarrow> int \<Rightarrow> ofile \<Rightarrow> lmasm_error + ofile" where
  "lmasm_write_op self conf ad f =
     (if ad < 0 \<or> ad > max_addr conf then Inl (Mailbox_out_of_range (op_name self) ad)
      else (case fputc (op_code self) f of
              None \<Rightarrow> Inl Write_failed
            | Some f1 \<Rightarrow>
                if num_digits conf > MAX_NUM_DIGITS then Inl Digit_buffer_overrun
                else (case fputc_all (drop 1 (encode_decimal ad (num_digits conf))) f1 of
                        None \<Rightarrow> Inl Write_failed
                      | Some f2 \<Rightarrow> Inr f2)))"

definition lmasm_write_io ::
  "lmasm_opcode \<Rightarrow> lmasm_conf \<Rightarrow> int \<Rightarrow> ofile \<Rightarrow> lmasm_error + ofile" where
  "lmasm_write_io self conf ad f =
     lmasm_write_op
       \<lparr>op_name = None, op_write = Write_op, op_code = 9, op_arg_format = NO_ARGUMENT\<rparr>
       conf (op_code self) f"

text \<open>The call \<^verbatim>\<open>instruction->write(instruction, &conf, addr)\<close>.\<close>

definition lmasm_write ::
  "lmasm_opcode \<Rightarrow> lmasm_conf \<Rightarrow> int \<Rightarrow> ofile \<Rightarrow> lmasm_error + ofile" where
  "lmasm_write self conf ad f =
     (case op_write self of
        Write_dat \<Rightarrow> lmasm_write_dat self conf ad f
      | Write_op \<Rightarrow> lmasm_write_op self conf ad f
      | Write_io \<Rightarrow> lmasm_write_io self conf ad f)"

definition mk_opcode ::
  "string \<Rightarrow> lmasm_writer \<Rightarrow> int \<Rightarrow> lmasm_arg_format \<Rightarrow> lmasm_opcode" where
  "mk_opcode n w c af = \<lparr>op_name = Some n, op_write = w, op_code = c, op_arg_format = af\<rparr>"

definition OPCODES :: "lmasm_opcode list" where
  "OPCODES =
    [mk_opcode ''DAT'' Write_dat (- 1) MAYBE_ARGUMENT,
     mk_opcode ''HLT'' Write_op 0 NO_ARGUMENT,
     mk_opcode ''COB'' Write_op 0 NO_ARGUMENT,
     mk_opcode ''ADD'' Write_op 1 ONE_ARGUMENT,
     mk_opcode ''SUB'' Write_op 2 ONE_ARGUMENT,
     mk_opcode ''STA'' Write_op 3 ONE_ARGUMENT,
     mk_opcode ''LDA'' Write_op 5 ONE_ARGUMENT,
     mk_opcode ''BRA'' Write_op 6 ONE_ARGUMENT,
     mk_opcode ''BRZ'' Write_op 7 ONE_ARGUMENT,
     mk_opcode ''BRP'' Write_op 8 ONE_ARGUMENT,
     mk_opcode ''INP'' Write_io 1 NO_ARGUMENT,
     mk_opcode ''OUT'' Write_io 2 NO_ARGUMENT]"

text \<open>The configuration computed at the start of \<^verbatim>\<open>main\<close>: \<^verbatim>\<open>max_dat\<close> starts at 1
  and is multiplied by 10 once per digit.\<close>

fun times10 :: "nat \<Rightarrow> int \<Rightarrow> int" where
  "times10 0 m = m"
| "times10 (Suc i) m = times10 i (m * 10)"

definition mk_conf :: "nat \<Rightarrow> lmasm_conf" where
  "mk_conf nd =
     (let m = times10 nd 1
      in \<lparr>num_digits = nd, max_addr = c_div m 10 - 1, max_dat = m - 1\<rparr>)"

subsection \<open>Scanner\<close>

text \<open>
  The input file is the list of characters not yet read. \<^verbatim>\<open>fgetc\<close> takes the head
  (EOF on the empty list, again and again), \<^verbatim>\<open>ungetc\<close> puts one character back, and
  \<^verbatim>\<open>ungetc(EOF)\<close> changes nothing. A function that returns a stream returns it as the
  source leaves the file, with a pushed-back character at its head.
\<close>

fun finish_line :: "string \<Rightarrow> bool \<Rightarrow> int \<Rightarrow> lmasm_error + string" where
  "finish_line [] in_comment cur_line = Inr []"
| "finish_line (c # cs) in_comment cur_line =
     (if c = newline then Inr cs
      else if \<not> isblank c \<and> \<not> in_comment then
        (if c \<noteq> CHR ''/'' then Inl (Expected_end_of_line cur_line)
         else (case cs of
                 [] \<Rightarrow> Inl (Unexpected_slash cur_line)
               | d # ds \<Rightarrow>
                   if d \<noteq> CHR ''/'' then Inl (Unexpected_slash cur_line)
                   else finish_line ds True cur_line))
      else finish_line cs in_comment cur_line)"

text \<open>The loop of \<^verbatim>\<open>parse_label\<close>, entered with \<open>i\<close> characters stored and the
  character \<open>c\<close> just read at the head of the stream; it returns the characters stored
  from here on and the stream whose head is the character that ended the loop.\<close>

fun label_chars :: "nat \<Rightarrow> string \<Rightarrow> string \<times> string" where
  "label_chars i [] = ([], [])"
| "label_chars i (c # cs) =
     (if islabel c \<and> i < MAX_LABEL_LEN
      then (case label_chars (Suc i) cs of (b, r) \<Rightarrow> (c # b, r))
      else ([], c # cs))"

definition parse_label :: "string \<Rightarrow> int \<Rightarrow> lmasm_error + (string \<times> string)" where
  "parse_label s cur_line =
     (if (case s of [] \<Rightarrow> False | c # cs \<Rightarrow> isdigit c) then Inl (Label_begins_with_digit cur_line)
      else (case label_chars 0 s of
              (buf, r) \<Rightarrow>
                if length buf = MAX_LABEL_LEN \<and> (case r of [] \<Rightarrow> False | c # cs \<Rightarrow> islabel c)
                then Inl (Label_too_long cur_line)
                else Inr (buf, r)))"

text \<open>The lookup loop of \<^verbatim>\<open>parse_addr\<close>:
  \<^verbatim>\<open>for (i = 0; i < num_labels; ++i) if (strcmp(buf, labels[i].name) == 0) { addr = labels[i].addr; break; }\<close>,
  with \<open>None\<close> for \<^verbatim>\<open>i == num_labels\<close>.\<close>

fun resolve :: "lmasm_label list \<Rightarrow> string \<Rightarrow> int option" where
  "resolve [] buf = None"
| "resolve (l # ls) buf =
     (if buf = label_name l then Some (label_addr l) else resolve ls buf)"

definition digit_val :: "char \<Rightarrow> int" where
  "digit_val c = int (code c) - 48"

text \<open>The loop \<^verbatim>\<open>while (isdigit((c = fgetc(input_file)))) { addr *= 10; addr += c - '0'; }\<close>.\<close>

fun digits_loop :: "int \<Rightarrow> string \<Rightarrow> lmasm_error + (int \<times> string)" where
  "digits_loop ad [] = Inr (ad, [])"
| "digits_loop ad (c # cs) =
     (if isdigit c
      then (if ad * 10 + digit_val c > INT_MAX then Inl Integer_overflow
            else digits_loop (ad * 10 + digit_val c) cs)
      else Inr (ad, c # cs))"

definition parse_addr ::
  "string \<Rightarrow> lmasm_label list \<Rightarrow> int \<Rightarrow> lmasm_error + (int \<times> string)" where
  "parse_addr s labels cur_line =
     (case s of
        [] \<Rightarrow> Inl (Invalid_address_field cur_line)
      | c # cs \<Rightarrow>
          if isdigit c then
            (case digits_loop (digit_val c) cs of
               Inl e \<Rightarrow> Inl e
             | Inr (ad, r) \<Rightarrow>
                 (case r of
                    [] \<Rightarrow> Inr (ad, [])
                  | d # ds \<Rightarrow>
                      if islabel d then Inl (Label_begins_with_digit cur_line)
                      else if d = newline then Inr (ad, ds)
                      else (case finish_line (d # ds) False cur_line of
                              Inl e \<Rightarrow> Inl e
                            | Inr r' \<Rightarrow> Inr (ad, r'))))
          else if islabel c then
            (case parse_label (c # cs) cur_line of
               Inl e \<Rightarrow> Inl e
             | Inr (buf, r) \<Rightarrow>
                 (case resolve labels buf of
                    None \<Rightarrow> Inl (No_such_label cur_line buf)
                  | Some ad \<Rightarrow>
                      (case finish_line r False cur_line of
                         Inl e \<Rightarrow> Inl e
                       | Inr r' \<Rightarrow> Inr (ad, r'))))
          else Inl (Invalid_address_field cur_line))"

subsection \<open>Pass 1: address allocation\<close>

text \<open>The inner loop of Pass 1 (the rest of a line after a leading blank). The call
  \<^verbatim>\<open>finish_line(input_file, true, cur_line)\<close> ignores the return code; inside a
  comment \<^verbatim>\<open>finish_line\<close> cannot fail.\<close>

fun pass1_rest :: "string \<Rightarrow> int \<Rightarrow> int \<Rightarrow> lmasm_error + (string \<times> int)" where
  "pass1_rest [] cur_addr cur_line = Inr ([], cur_addr)"
| "pass1_rest (c # cs) cur_addr cur_line =
     (if c = newline then Inr (cs, cur_addr)
      else if c = CHR ''/'' then
        (case finish_line (c # cs) False cur_line of
           Inl e \<Rightarrow> Inl e
         | Inr r \<Rightarrow> Inr (r, cur_addr))
      else if \<not> isblank c then
        (case finish_line cs True cur_line of
           Inl e \<Rightarrow> Inr (cs, cur_addr + 1)
         | Inr r \<Rightarrow> Inr (r, cur_addr + 1))
      else pass1_rest cs cur_addr cur_line)"

lemma finish_line_length:
  "finish_line s b l = Inr r \<Longrightarrow> length r \<le> length s"
proof (induction s b l rule: finish_line.induct)
  case (1 in_comment cur_line)
  then show ?case by simp
next
  case (2 c cs in_comment cur_line)
  then show ?case
    by (auto split: if_splits list.splits simp: le_Suc_eq)
qed

lemma finish_line_shorter:
  "finish_line (c # cs) b l = Inr r \<Longrightarrow> length r \<le> length cs"
  by (auto split: if_splits list.splits dest!: finish_line_length)

lemma label_chars_length:
  "label_chars i s = (b, r) \<Longrightarrow> length r \<le> length s"
proof (induction i s arbitrary: b r rule: label_chars.induct)
  case (1 i)
  then show ?case by simp
next
  case (2 i c cs)
  then show ?case
    by (auto split: if_splits prod.splits simp: le_Suc_eq)
qed

lemma label_chars_consumes:
  "label_chars i (c # cs) = (b, r) \<Longrightarrow> islabel c \<Longrightarrow> i < MAX_LABEL_LEN \<Longrightarrow> length r \<le> length cs"
  by (auto split: prod.splits dest: label_chars_length)

lemma parse_label_length:
  "parse_label s l = Inr (b, r) \<Longrightarrow> length r \<le> length s"
  by (auto simp: parse_label_def split: if_splits prod.splits dest: label_chars_length)

lemma pass1_rest_length:
  "pass1_rest s a l = Inr (r, a') \<Longrightarrow> length r \<le> length s"
proof (induction s a l rule: pass1_rest.induct)
  case (1 cur_addr cur_line)
  then show ?case by simp
next
  case (2 c cs cur_addr cur_line)
  then show ?case
    by (auto split: if_splits sum.splits simp: le_Suc_eq simp del: finish_line.simps
        dest: finish_line_shorter finish_line_length)
qed

text \<open>
  The first loop of \<^verbatim>\<open>main\<close>. The label table is the list of labels defined so far
  (\<^verbatim>\<open>num_labels\<close> is its length). \<^verbatim>\<open>++num_labels >= label_buf_size\<close> first holds at
  the 32nd label, where the model stops with \<open>Label_table_overrun\<close>. A line whose first
  character is neither blank nor a label character defines a label with the empty name
  and leaves the character unread, so the loop reads it again.
\<close>

function pass1 ::
  "string \<Rightarrow> int \<Rightarrow> int \<Rightarrow> lmasm_label list \<Rightarrow> lmasm_error + (int \<times> lmasm_label list)" where
  "pass1 [] cur_addr cur_line labels = Inr (cur_addr, labels)"
| "pass1 (c # cs) cur_addr cur_line labels =
     (if c = newline then pass1 cs cur_addr (cur_line + 1) labels
      else if c = CHR ''/'' then
        (case finish_line (c # cs) False (cur_line + 1) of
           Inl e \<Rightarrow> Inl e
         | Inr r \<Rightarrow> pass1 r cur_addr (cur_line + 1) labels)
      else if \<not> isblank c then
        (if Suc (length labels) \<ge> 32 then Inl Label_table_overrun
         else (case parse_label (c # cs) (cur_line + 1) of
                 Inl e \<Rightarrow> Inl e
               | Inr (nm, r) \<Rightarrow>
                   pass1 r cur_addr (cur_line + 1)
                     (labels @ [\<lparr>label_name = nm, label_addr = cur_addr\<rparr>])))
      else (case pass1_rest cs cur_addr (cur_line + 1) of
              Inl e \<Rightarrow> Inl e
            | Inr (r, a') \<Rightarrow> pass1 r a' (cur_line + 1) labels))"
  by pat_completeness auto
termination
proof (relation "measures [\<lambda>(s, a, l, ls). length s, \<lambda>(s, a, l, ls). 32 - length ls]")
  show "wf (measures [\<lambda>(s, a, l, ls). length s, \<lambda>(s, a, l, ls). 32 - length ls])"
    by simp
next
  fix c :: char and cs :: string and cur_addr cur_line :: int and labels :: "lmasm_label list"
  show "((cs, cur_addr, cur_line + 1, labels), c # cs, cur_addr, cur_line, labels)
          \<in> measures [\<lambda>(s, a, l, ls). length s, \<lambda>(s, a, l, ls). 32 - length ls]"
    by simp
next
  fix c :: char and cs :: string and cur_addr cur_line :: int and labels :: "lmasm_label list"
    and r :: string
  assume "finish_line (c # cs) False (cur_line + 1) = Inr r"
  then have "length r \<le> length cs" by (rule finish_line_shorter)
  then show "((r, cur_addr, cur_line + 1, labels), c # cs, cur_addr, cur_line, labels)
          \<in> measures [\<lambda>(s, a, l, ls). length s, \<lambda>(s, a, l, ls). 32 - length ls]"
    by simp
next
  fix c :: char and cs :: string and cur_addr cur_line :: int and labels :: "lmasm_label list"
    and x :: "string \<times> string" and nm r :: string
  assume "\<not> 32 \<le> Suc (length labels)"
    and "parse_label (c # cs) (cur_line + 1) = Inr x" and "(nm, r) = x"
  then have "length r \<le> length (c # cs)" and "length labels < 31"
    by (auto dest: parse_label_length)
  then show "((r, cur_addr, cur_line + 1, labels @ [\<lparr>label_name = nm, label_addr = cur_addr\<rparr>]),
          c # cs, cur_addr, cur_line, labels)
          \<in> measures [\<lambda>(s, a, l, ls). length s, \<lambda>(s, a, l, ls). 32 - length ls]"
    by auto
next
  fix c :: char and cs :: string and cur_addr cur_line :: int and labels :: "lmasm_label list"
    and x :: "string \<times> int" and r :: string and a' :: int
  assume "pass1_rest cs cur_addr (cur_line + 1) = Inr x" and "(r, a') = x"
  then have "length r \<le> length cs"
    by (auto dest: pass1_rest_length)
  then show "((r, a', cur_line + 1, labels), c # cs, cur_addr, cur_line, labels)
          \<in> measures [\<lambda>(s, a, l, ls). length s, \<lambda>(s, a, l, ls). 32 - length ls]"
    by simp
qed

subsection \<open>Pass 2: encoding\<close>

text \<open>The catalogue lookup
  \<^verbatim>\<open>for (i = 0; i < NUM_OPCODES; ++i) if (strcasecmp(OPCODES[i].name, opcode_name) == 0) ...\<close>.\<close>

fun find_opcode :: "lmasm_opcode list \<Rightarrow> string \<Rightarrow> lmasm_opcode option" where
  "find_opcode [] nm = None"
| "find_opcode (e # es) nm =
     (if (case op_name e of None \<Rightarrow> False | Some n \<Rightarrow> strcasecmp_eq n nm) then Some e
      else find_opcode es nm)"

text \<open>The \<^verbatim>\<open>switch (instruction->arg_format)\<close>: the operand (0 when there is none)
  and the stream after the line. \<open>MAYBE_ARGUMENT\<close> falls through to
  \<open>ONE_ARGUMENT\<close> when a label character follows.\<close>

definition read_operand ::
  "lmasm_arg_format \<Rightarrow> string \<Rightarrow> lmasm_label list \<Rightarrow> int \<Rightarrow> lmasm_error + (int \<times> string)" where
  "read_operand af s labels cur_line =
     (case af of
        NO_ARGUMENT \<Rightarrow>
          (case finish_line s False cur_line of Inl e \<Rightarrow> Inl e | Inr r \<Rightarrow> Inr (0, r))
      | MAYBE_ARGUMENT \<Rightarrow>
          (case s of
             [] \<Rightarrow> Inr (0, [])
           | c # cs \<Rightarrow>
               if \<not> islabel c
               then (case finish_line s False cur_line of Inl e \<Rightarrow> Inl e | Inr r \<Rightarrow> Inr (0, r))
               else parse_addr s labels cur_line)
      | ONE_ARGUMENT \<Rightarrow> parse_addr s labels cur_line)"

text \<open>
  One turn of the second loop of \<^verbatim>\<open>main\<close>, on the stream whose head is the character
  \<open>c\<close> the loop condition has just read, with \<open>cur_line\<close> already incremented. The
  \<^verbatim>\<open>break\<close> at EOF returns the empty stream, on which the loop condition ends the loop
  as well. A return of \<open>-1\<close> (range error) and of EOF from the writer both end the run.
\<close>

definition pass2_line ::
  "lmasm_conf \<Rightarrow> lmasm_label list \<Rightarrow> string \<Rightarrow> int \<Rightarrow> ofile \<Rightarrow> lmasm_error + (string \<times> ofile)" where
  "pass2_line conf labels s cur_line f =
     (case s of
        [] \<Rightarrow> Inr ([], f)
      | c # cs \<Rightarrow>
          if c = newline then Inr (cs, f)
          else if c = CHR ''/'' then
            (case finish_line s False cur_line of Inl e \<Rightarrow> Inl e | Inr r \<Rightarrow> Inr (r, f))
          else
            (case dropWhile isblank (dropWhile islabel s) of
               [] \<Rightarrow> Inr ([], f)
             | d # ds \<Rightarrow>
                 if d = newline then Inr (ds, f)
                 else
                   (case ds of
                      n1 # n2 # t \<Rightarrow>
                        if (case t of [] \<Rightarrow> False | e # es \<Rightarrow> \<not> isspace e)
                        then Inl (Opcode_too_long cur_line)
                        else
                          (case find_opcode OPCODES [d, n1, n2] of
                             None \<Rightarrow> Inl (No_such_instruction cur_line [d, n1, n2])
                           | Some ins \<Rightarrow>
                               (case read_operand (op_arg_format ins) (dropWhile isblank t)
                                       labels cur_line of
                                  Inl e \<Rightarrow> Inl e
                                | Inr (ad, r) \<Rightarrow>
                                    (case lmasm_write ins conf ad f of
                                       Inl e \<Rightarrow> Inl e
                                     | Inr f' \<Rightarrow> Inr (r, f'))))
                    | _ \<Rightarrow> Inl Unexpected_EOF)))"

lemma digits_loop_length:
  "digits_loop a s = Inr (a', r) \<Longrightarrow> length r \<le> length s"
proof (induction a s rule: digits_loop.induct)
  case (1 ad)
  then show ?case by simp
next
  case (2 ad c cs)
  then show ?case
    by (auto split: if_splits simp: le_Suc_eq)
qed

lemma parse_addr_length:
  "parse_addr s labels l = Inr (a, r) \<Longrightarrow> length r \<le> length s"
  unfolding parse_addr_def
  by (auto split: list.splits if_splits sum.splits prod.splits option.splits
      simp: le_Suc_eq simp del: finish_line.simps
      dest!: digits_loop_length finish_line_length parse_label_length)

lemma read_operand_length:
  "read_operand af s labels l = Inr (a, r) \<Longrightarrow> length r \<le> length s"
  unfolding read_operand_def
  by (auto split: lmasm_arg_format.splits list.splits if_splits sum.splits
      simp del: finish_line.simps dest!: finish_line_length parse_addr_length)

lemma length_dropWhile_le_Cons:
  "dropWhile P s = d # ds \<Longrightarrow> length ds < length s"
  using length_dropWhile_le [of P s] by simp

lemma pass2_line_length:
  assumes "pass2_line conf labels (c # cs) l f = Inr (r, f')"
  shows "length r \<le> length cs"
proof -
  define w where "w = dropWhile isblank (dropWhile islabel (c # cs))"
  have wl: "length w \<le> Suc (length cs)"
    unfolding w_def
    using order_trans [OF length_dropWhile_le length_dropWhile_le, of isblank islabel "c # cs"]
    by simp
  have blank: "length (dropWhile isblank t) \<le> length t" for t
    by (rule length_dropWhile_le)
  note body = assms [unfolded pass2_line_def list.case, folded w_def]
  show ?thesis
  proof (cases "c = newline \<or> c = CHR ''/''")
    case True
    with body show ?thesis
      by (auto split: if_splits sum.splits simp del: finish_line.simps
          dest: finish_line_shorter)
  next
    case False
    show ?thesis
    proof (cases w)
      case Nil
      with body False show ?thesis
        by simp
    next
      case (Cons d ds)
      show ?thesis
      proof (cases "d = newline")
        case True
        with body False Cons wl show ?thesis
          by simp
      next
        case nl: False
        have ro: "length r' \<le> length t"
          if "read_operand af (dropWhile isblank t) labels l = Inr (ad, r')" for af t ad r'
          using read_operand_length [OF that] blank [of t] by simp
        from body False Cons nl wl show ?thesis
          by (auto split: list.splits if_splits option.splits sum.splits prod.splits
              simp del: dropWhile.simps dest!: ro)
      qed
    qed
  qed
qed

function pass2 ::
  "lmasm_conf \<Rightarrow> lmasm_label list \<Rightarrow> string \<Rightarrow> int \<Rightarrow> ofile \<Rightarrow> lmasm_error + ofile" where
  "pass2 conf labels [] cur_line f = Inr f"
| "pass2 conf labels (c # cs) cur_line f =
     (case pass2_line conf labels (c # cs) (cur_line + 1) f of
        Inl e \<Rightarrow> Inl e
      | Inr (r, f') \<Rightarrow> pass2 conf labels r (cur_line + 1) f')"
  by pat_completeness auto
termination
proof (relation "measure (\<lambda>(conf, labels, s, l, f). length s)")
  show "wf (measure (\<lambda>(conf, labels, s, l, f). length s))"
    by simp
next
  fix conf :: lmasm_conf and labels :: "lmasm_label list" and c :: char and cs :: string
    and cur_line :: int and f :: ofile and x :: "string \<times> ofile" and r :: string and f' :: ofile
  assume "pass2_line conf labels (c # cs) (cur_line + 1) f = Inr x" and "(r, f') = x"
  then have "length r \<le> length cs"
    by (auto dest: pass2_line_length)
  then show "((conf, labels, r, cur_line + 1, f'), conf, labels, c # cs, cur_line, f)
          \<in> measure (\<lambda>(conf, labels, s, l, f). length s)"
    by simp
qed

subsection \<open>The assembler's main\<close>

text \<open>
  \<^verbatim>\<open>main\<close> on the text of the input file and an output device with \<open>rm\<close> bytes of
  room: the configuration for 3 digits, Pass 1, the length check, Pass 2 on the rewound
  input. Failures to open, rewind or allocate are outside the model. The result is the
  error that ends the run or the output file; the exit code is \<open>rc\<close>.
\<close>

definition lmasm_main :: "string \<Rightarrow> nat \<Rightarrow> lmasm_error + ofile" where
  "lmasm_main src rm =
     (let conf = mk_conf 3 in
      case pass1 src 0 0 [] of
        Inl e \<Rightarrow> Inl e
      | Inr (cur_addr, labels) \<Rightarrow>
          if cur_addr > max_addr conf then Inl (Program_too_long cur_addr (max_addr conf))
          else pass2 conf labels src 0 \<lparr>written = [], room = rm\<rparr>)"

definition lmasm_exit_code :: "lmasm_error + ofile \<Rightarrow> int" where
  "lmasm_exit_code res = (case res of Inl e \<Rightarrow> 1 | Inr f \<Rightarrow> 0)"

section \<open>The emulator (lmc.c)\<close>

subsection \<open>Data\<close>

definition NUM_MAILBOXES :: nat where
  "NUM_MAILBOXES = 100"

definition NUM_DIGITS :: nat where
  "NUM_DIGITS = 3"

definition MAX_VALUE :: int where
  "MAX_VALUE = 999"

record lmc_cpu =
  cpu_a :: int
  cpu_pc :: int
  cpu_instruction :: int
  cpu_opcode :: int
  cpu_addr :: int
  cpu_neg :: bool
  cpu_halted :: bool
  cpu_error :: bool

record lmc =
  mailboxes :: "int list"
  cpu :: lmc_cpu

text \<open>
  Undefined behaviour of the C program, as values: an access outside
  \<^verbatim>\<open>mailboxes[NUM_MAILBOXES]\<close>, a read of \<^verbatim>\<open>OPS\<close> at a negative index, and an
  addition or subtraction that leaves the range of \<^verbatim>\<open>int\<close>. The source has no check
  at these places; the model stops there and names the place.
\<close>

datatype lmc_fault =
    Read_outside_mailboxes int
  | Write_outside_mailboxes int
  | Read_outside_OPS int
  | Signed_overflow

text \<open>
  The process's streams. Standard input is the list of integers that successive
  \<^verbatim>\<open>scanf("%d")\<close> calls parse before the first failure; after that every call fails
  and the input loop never ends. Standard output and standard error are the lines
  printed; the dump of \<^verbatim>\<open>bad_instruction\<close> lists instruction, a, pc, opcode, addr,
  neg and halt.
\<close>

datatype out_line = Loaded nat | Prompt | Number int

datatype err_line = Bad_instruction_dump int int int int int bool bool | Load_error | Bad_file_size

record console =
  stdin :: "int list"
  stdout :: "out_line list"
  stderr :: "err_line list"

type_synonym lmc_op = "lmc \<Rightarrow> console \<Rightarrow> (lmc_fault + lmc \<times> console) option"

subsection \<open>Operation handlers\<close>

definition mb_read :: "int list \<Rightarrow> int \<Rightarrow> lmc_fault + int" where
  "mb_read m i =
     (if 0 \<le> i \<and> i < int NUM_MAILBOXES then Inr (m ! nat i)
      else Inl (Read_outside_mailboxes i))"

definition mb_write :: "int list \<Rightarrow> int \<Rightarrow> int \<Rightarrow> lmc_fault + int list" where
  "mb_write m i v =
     (if 0 \<le> i \<and> i < int NUM_MAILBOXES then Inr (m[nat i := v])
      else Inl (Write_outside_mailboxes i))"

definition bad_instruction :: "lmc \<Rightarrow> console \<Rightarrow> lmc \<times> console" where
  "bad_instruction s io =
     (let c = cpu s
      in (s\<lparr>cpu := c\<lparr>cpu_halted := True, cpu_error := True\<rparr>\<rparr>,
          io\<lparr>stderr := stderr io @
             [Bad_instruction_dump (cpu_instruction c) (cpu_a c) (cpu_pc c) (cpu_opcode c)
                (cpu_addr c) (cpu_neg c) (cpu_halted c)]\<rparr>))"

definition lmc_halt :: "lmc \<Rightarrow> lmc" where
  "lmc_halt s = s\<lparr>cpu := (cpu s)\<lparr>cpu_halted := True\<rparr>\<rparr>"

definition lmc_add :: "lmc \<Rightarrow> lmc_fault + lmc" where
  "lmc_add s =
     (case mb_read (mailboxes s) (cpu_addr (cpu s)) of
        Inl f \<Rightarrow> Inl f
      | Inr v \<Rightarrow>
          (let r = cpu_a (cpu s) + v in
           if r > INT_MAX \<or> r < INT_MIN then Inl Signed_overflow
           else (let ng = (r > MAX_VALUE)
                 in Inr (s\<lparr>cpu := (cpu s)\<lparr>cpu_a := (if ng then r - (MAX_VALUE + 1) else r),
                                           cpu_neg := ng\<rparr>\<rparr>))))"

definition lmc_sub :: "lmc \<Rightarrow> lmc_fault + lmc" where
  "lmc_sub s =
     (case mb_read (mailboxes s) (cpu_addr (cpu s)) of
        Inl f \<Rightarrow> Inl f
      | Inr v \<Rightarrow>
          (let r = cpu_a (cpu s) - v in
           if r > INT_MAX \<or> r < INT_MIN then Inl Signed_overflow
           else (let ng = (r < 0)
                 in Inr (s\<lparr>cpu := (cpu s)\<lparr>cpu_a := (if ng then r + (MAX_VALUE + 1) else r),
                                           cpu_neg := ng\<rparr>\<rparr>))))"

definition lmc_store :: "lmc \<Rightarrow> lmc_fault + lmc" where
  "lmc_store s =
     (case mb_write (mailboxes s) (cpu_addr (cpu s)) (cpu_a (cpu s)) of
        Inl f \<Rightarrow> Inl f
      | Inr m \<Rightarrow> Inr (s\<lparr>mailboxes := m\<rparr>))"

definition lmc_load :: "lmc \<Rightarrow> lmc_fault + lmc" where
  "lmc_load s =
     (case mb_read (mailboxes s) (cpu_addr (cpu s)) of
        Inl f \<Rightarrow> Inl f
      | Inr v \<Rightarrow> Inr (s\<lparr>cpu := (cpu s)\<lparr>cpu_a := v\<rparr>\<rparr>))"

definition lmc_branch :: "lmc \<Rightarrow> lmc" where
  "lmc_branch s = s\<lparr>cpu := (cpu s)\<lparr>cpu_pc := cpu_addr (cpu s)\<rparr>\<rparr>"

definition lmc_branch_zero :: "lmc \<Rightarrow> lmc" where
  "lmc_branch_zero s =
     (if 0 = cpu_a (cpu s) then s\<lparr>cpu := (cpu s)\<lparr>cpu_pc := cpu_addr (cpu s)\<rparr>\<rparr> else s)"

definition lmc_branch_positive :: "lmc \<Rightarrow> lmc" where
  "lmc_branch_positive s =
     (if \<not> cpu_neg (cpu s) then s\<lparr>cpu := (cpu s)\<lparr>cpu_pc := cpu_addr (cpu s)\<rparr>\<rparr> else s)"

text \<open>\<open>None\<close>: the input loop \<^verbatim>\<open>while (rc != 1)\<close> never ends.\<close>

definition lmc_io :: "lmc \<Rightarrow> console \<Rightarrow> (lmc \<times> console) option" where
  "lmc_io s io =
     (if cpu_addr (cpu s) = 1 then
        (case stdin io of
           [] \<Rightarrow> None
         | v # vs \<Rightarrow>
             Some (s\<lparr>cpu := (cpu s)\<lparr>cpu_a := v\<rparr>\<rparr>,
                   io\<lparr>stdin := vs, stdout := stdout io @ [Prompt]\<rparr>))
      else if cpu_addr (cpu s) = 2 then
        Some (s, io\<lparr>stdout := stdout io @ [Number (cpu_a (cpu s))]\<rparr>)
      else Some (bad_instruction s io))"

text \<open>The handlers at the common type of the table \<^verbatim>\<open>OPS\<close>; the NULL entry is
  \<open>None\<close>.\<close>

definition op_total :: "(lmc \<Rightarrow> lmc) \<Rightarrow> lmc_op" where
  "op_total h s io = Some (Inr (h s, io))"

definition op_memory :: "(lmc \<Rightarrow> lmc_fault + lmc) \<Rightarrow> lmc_op" where
  "op_memory h s io = Some (case h s of Inl f \<Rightarrow> Inl f | Inr s' \<Rightarrow> Inr (s', io))"

definition op_console :: "(lmc \<Rightarrow> console \<Rightarrow> (lmc \<times> console) option) \<Rightarrow> lmc_op" where
  "op_console h s io = (case h s io of None \<Rightarrow> None | Some r \<Rightarrow> Some (Inr r))"

definition OPS :: "lmc_op option list" where
  "OPS =
    [Some (op_total lmc_halt),
     Some (op_memory lmc_add),
     Some (op_memory lmc_sub),
     Some (op_memory lmc_store),
     None,
     Some (op_memory lmc_load),
     Some (op_total lmc_branch),
     Some (op_total lmc_branch_zero),
     Some (op_total lmc_branch_positive),
     Some (op_console lmc_io)]"

subsection \<open>Loader and fetch-decode-execute loop\<close>

text \<open>The loading loop of \<^verbatim>\<open>main\<close>, from byte number \<open>i\<close> on: each byte goes into
  \<^verbatim>\<open>mailboxes[i / NUM_DIGITS]\<close>.\<close>

fun load_loop :: "byte list \<Rightarrow> nat \<Rightarrow> int list \<Rightarrow> lmc_fault + (int list \<times> nat)" where
  "load_loop [] i m = Inr (m, i)"
| "load_loop (c # cs) i m =
     (if i div NUM_DIGITS \<ge> NUM_MAILBOXES
      then Inl (Write_outside_mailboxes (int (i div NUM_DIGITS)))
      else load_loop cs (Suc i)
             (m[i div NUM_DIGITS := (m ! (i div NUM_DIGITS)) * 10 + uint c]))"

text \<open>One turn of \<^verbatim>\<open>while (!lmc.cpu.halted)\<close>: fetch with \<^verbatim>\<open>pc++\<close>, decode,
  dispatch. \<^verbatim>\<open>opcode > 9\<close> is tested before \<^verbatim>\<open>OPS[opcode]\<close> is read.\<close>

definition lmc_cycle :: "lmc \<Rightarrow> console \<Rightarrow> (lmc_fault + lmc \<times> console) option" where
  "lmc_cycle s io =
     (case mb_read (mailboxes s) (cpu_pc (cpu s)) of
        Inl f \<Rightarrow> Some (Inl f)
      | Inr ins \<Rightarrow>
          (let s1 = s\<lparr>cpu := (cpu s)\<lparr>cpu_instruction := ins,
                                      cpu_pc := cpu_pc (cpu s) + 1,
                                      cpu_opcode := c_div ins (int NUM_MAILBOXES),
                                      cpu_addr := c_mod ins (int NUM_MAILBOXES)\<rparr>\<rparr>
           in if cpu_opcode (cpu s1) > 9 then Some (Inr (bad_instruction s1 io))
              else if cpu_opcode (cpu s1) < 0 then Some (Inl (Read_outside_OPS (cpu_opcode (cpu s1))))
              else (case OPS ! nat (cpu_opcode (cpu s1)) of
                      None \<Rightarrow> Some (Inr (bad_instruction s1 io))
                    | Some h \<Rightarrow> h s1 io)))"

text \<open>The loop with a bound on the number of turns: \<open>None\<close> when the machine has not
  halted within the bound, or waits for input for ever. The \<^verbatim>\<open>break\<close> after
  \<^verbatim>\<open>bad_instruction\<close> leaves the loop as its condition does, \<^verbatim>\<open>halted\<close> being set.\<close>

fun lmc_loop :: "nat \<Rightarrow> lmc \<Rightarrow> console \<Rightarrow> (lmc_fault + lmc \<times> console) option" where
  "lmc_loop 0 s io = (if cpu_halted (cpu s) then Some (Inr (s, io)) else None)"
| "lmc_loop (Suc k) s io =
     (if cpu_halted (cpu s) then Some (Inr (s, io))
      else (case lmc_cycle s io of
              None \<Rightarrow> None
            | Some (Inl f) \<Rightarrow> Some (Inl f)
            | Some (Inr (s', io')) \<Rightarrow> lmc_loop k s' io'))"

definition cpu0 :: lmc_cpu where
  "cpu0 = \<lparr>cpu_a = 0, cpu_pc = 0, cpu_instruction = 0, cpu_opcode = 0, cpu_addr = 0,
           cpu_neg = False, cpu_halted = False, cpu_error = False\<rparr>"

text \<open>The value \<^verbatim>\<open>main\<close> returns after the loop, \<^verbatim>\<open>!!lmc.cpu.error\<close>.\<close>

definition lmc_exit_status :: "lmc \<Rightarrow> int" where
  "lmc_exit_status s = (if cpu_error (cpu s) then 1 else 0)"

text \<open>
  \<^verbatim>\<open>main\<close> on the bytes of the image file, a flag telling whether reading stopped on
  an error rather than at the end of the file, the standard input and the bound on
  turns. The result is a fault, or the exit status \<^verbatim>\<open>!!lmc.cpu.error\<close> (1 after a load
  error) with the streams.
\<close>

definition lmc_main ::
  "byte list \<Rightarrow> bool \<Rightarrow> int list \<Rightarrow> nat \<Rightarrow> (lmc_fault + int \<times> console) option" where
  "lmc_main img read_error inp n =
     (case load_loop img 0 (replicate NUM_MAILBOXES 0) of
        Inl f \<Rightarrow> Some (Inl f)
      | Inr (m, i) \<Rightarrow>
          if read_error
          then Some (Inr (1, \<lparr>stdin = inp, stdout = [], stderr = [Load_error]\<rparr>))
          else if i mod NUM_DIGITS \<noteq> 0
          then Some (Inr (1, \<lparr>stdin = inp, stdout = [], stderr = [Bad_file_size]\<rparr>))
          else (case lmc_loop n \<lparr>mailboxes = m, cpu = cpu0\<rparr>
                       \<lparr>stdin = inp, stdout = [Loaded (i div NUM_DIGITS)], stderr = []\<rparr> of
                  None \<Rightarrow> None
                | Some (Inl f) \<Rightarrow> Some (Inl f)
                | Some (Inr (s, io)) \<Rightarrow> Some (Inr (lmc_exit_status s, io))))"

section \<open>Notions of the specification\<close>

text \<open>The \<open>k\<close> big-endian decimal digits of \<open>n\<close>, most significant first, and the
  number a digit sequence denotes.\<close>

definition be_digits :: "nat \<Rightarrow> int \<Rightarrow> int list" where
  "be_digits k n = map (\<lambda>i. (n div 10 ^ (k - 1 - i)) mod 10) [0..<k]"


section \<open>Auxiliary definitions\<close>

text \<open>The state of \<^verbatim>\<open>lmc_cycle\<close> after fetch and decode of the word \<open>ins\<close>.\<close>

definition decoded :: "lmc \<Rightarrow> int \<Rightarrow> lmc" where
  "decoded s ins = s\<lparr>cpu := (cpu s)\<lparr>cpu_instruction := ins,
                                      cpu_pc := cpu_pc (cpu s) + 1,
                                      cpu_opcode := c_div ins (int NUM_MAILBOXES),
                                      cpu_addr := c_mod ins (int NUM_MAILBOXES)\<rparr>\<rparr>"

text \<open>The two entries of \<^verbatim>\<open>OPCODES\<close> for halting.\<close>

definition HLT :: lmasm_opcode where
  "HLT = mk_opcode ''HLT'' Write_op 0 NO_ARGUMENT"

definition COB :: lmasm_opcode where
  "COB = mk_opcode ''COB'' Write_op 0 NO_ARGUMENT"

text \<open>\<open>nm\<close> is a label token in front of \<open>rest\<close>: a non-empty run of at most
  \<^verbatim>\<open>MAX_LABEL_LEN\<close> label characters that does not start with a digit and is not
  continued by \<open>rest\<close>. And the catalogue entries of BRA and DAT.\<close>

definition label_token :: "string \<Rightarrow> string \<Rightarrow> bool" where
  "label_token nm rest =
     (nm \<noteq> [] \<and> list_all islabel nm \<and> \<not> isdigit (hd nm) \<and> length nm \<le> MAX_LABEL_LEN
      \<and> (case rest of [] \<Rightarrow> True | c # cs \<Rightarrow> \<not> islabel c))"

definition BRA :: lmasm_opcode where
  "BRA = mk_opcode ''BRA'' Write_op 6 ONE_ARGUMENT"

definition DAT :: lmasm_opcode where
  "DAT = mk_opcode ''DAT'' Write_dat (- 1) MAYBE_ARGUMENT"

section \<open>Concrete inputs\<close>

text \<open>A machine state with 500 in the accumulator whose decoded address field selects
  mailbox 7, which holds 700.\<close>

definition wrap_state :: lmc where
  "wrap_state = \<lparr>mailboxes = (replicate NUM_MAILBOXES 0)[7 := 700],
                 cpu = cpu0\<lparr>cpu_a := 500, cpu_addr := 7\<rparr>\<rparr>"

text \<open>A fresh machine whose first mailbox holds 903 (opcode 9, address field 3), and the
  empty console.\<close>

definition bad_io_state :: lmc where
  "bad_io_state = \<lparr>mailboxes = (replicate NUM_MAILBOXES 0)[0 := 903], cpu = cpu0\<rparr>"

definition console0 :: console where
  "console0 = \<lparr>stdin = [], stdout = [], stderr = []\<rparr>"

text \<open>An image of 100 mailboxes that all hold 500 (load from mailbox 0), and a machine
  whose program counter has run past the last mailbox.\<close>

definition no_halt_image :: "byte list" where
  "no_halt_image = concat (replicate 100 [5, 0, 0])"

definition past_end_state :: lmc where
  "past_end_state = \<lparr>mailboxes = replicate NUM_MAILBOXES 500, cpu = cpu0\<lparr>cpu_pc := 100\<rparr>\<rparr>"

text \<open>The four-line program of scenario 1, with every line starting in the first
  column and with the three unlabelled instructions indented by a blank; the image of
  the latter; and a source of 100 instruction lines.\<close>

definition scenario1_column0 :: string where
  "scenario1_column0 =
     ''LDA FIVE'' @ [newline] @ ''OUT'' @ [newline] @ ''HLT'' @ [newline] @ ''FIVE DAT 5''"

definition scenario1_indented :: string where
  "scenario1_indented =
     '' LDA FIVE'' @ [newline] @ '' OUT'' @ [newline] @ '' HLT'' @ [newline] @ ''FIVE DAT 5''"

definition scenario1_image :: "byte list" where
  "scenario1_image = [5, 0, 3, 9, 0, 2, 0, 0, 0, 0, 0, 5]"

definition hundred_instructions :: string where
  "hundred_instructions = concat (replicate 100 ('' HLT'' @ [newline]))"

text \<open>A fresh machine with empty memory.\<close>

definition zero_state :: lmc where
  "zero_state = \<lparr>mailboxes = replicate NUM_MAILBOXES 0, cpu = cpu0\<rparr>"

text \<open>The catalogue entry of LDA, and an empty output file on a device with room for
  three bytes.\<close>

definition LDA :: lmasm_opcode where
  "LDA = mk_opcode ''LDA'' Write_op 5 ONE_ARGUMENT"

definition three_bytes_room :: ofile where
  "three_bytes_room = \<lparr>written = [], room = 3\<rparr>"

text \<open>A source that defines the label X twice and then refers to it.\<close>

definition duplicate_labels :: string where
  "duplicate_labels =
     ''X DAT 1'' @ [newline] @ ''X DAT 2'' @ [newline] @ '' LDA X'' @ [newline]"

text \<open>A source of \<open>k\<close> lines that each define the label X in front of a data
  directive.\<close>

definition label_definitions :: "nat \<Rightarrow> string" where
  "label_definitions k = concat (replicate k (''X DAT 1'' @ [newline]))"

section \<open>Properties\<close>

subsection \<open>Auxiliary facts\<close>

lemma c_div_nonneg: "0 \<le> x \<Longrightarrow> 0 < y \<Longrightarrow> c_div x y = x div y"
  by (cases "x = 0") (simp_all add: c_div_def)

lemma c_mod_nonneg: "0 \<le> x \<Longrightarrow> 0 < y \<Longrightarrow> c_mod x y = x mod y"
  by (simp add: c_mod_def c_div_nonneg minus_mult_div_eq_mod)

lemma times10_eq: "times10 k m = m * 10 ^ k"
  by (induction k arbitrary: m) simp_all

lemma mk_conf_fields:
  "num_digits (mk_conf nd) = nd"
  "max_dat (mk_conf nd) = 10 ^ nd - 1"
  "0 < nd \<Longrightarrow> max_addr (mk_conf nd) = 10 ^ (nd - 1) - 1"
proof -
  show "num_digits (mk_conf nd) = nd" "max_dat (mk_conf nd) = 10 ^ nd - 1"
    by (simp_all add: mk_conf_def times10_eq Let_def)
  assume "0 < nd"
  then obtain k where nd: "nd = Suc k" by (cases nd) auto
  show "max_addr (mk_conf nd) = 10 ^ (nd - 1) - 1"
    by (simp add: mk_conf_def times10_eq nd c_div_nonneg Let_def)
qed

lemma be_digits_snoc: "be_digits (Suc k) n = be_digits k (n div 10) @ [n mod 10]"
proof -
  have "be_digits k (n div 10) = map (\<lambda>i. (n div 10 ^ (Suc k - 1 - i)) mod 10) [0..<k]"
    unfolding be_digits_def
  proof (rule map_cong [OF refl])
    fix i assume "i \<in> set [0..<k]"
    then have "Suc (k - 1 - i) = k - i" by auto
    then have "(10::int) ^ (k - i) = 10 * 10 ^ (k - 1 - i)"
      by (metis power_Suc)
    then show "n div 10 div 10 ^ (k - 1 - i) mod 10 = n div 10 ^ (Suc k - 1 - i) mod 10"
      by (simp add: zdiv_zmult2_eq)
  qed
  then show ?thesis
    by (simp add: be_digits_def)
qed

lemma encode_decimal_digits: "0 \<le> n \<Longrightarrow> encode_decimal n k = be_digits k n"
proof (induction k arbitrary: n)
  case 0
  show ?case by (simp add: be_digits_def)
next
  case (Suc k)
  have "0 \<le> n div 10" using Suc.prems by simp
  then have "encode_decimal (n div 10) k = be_digits k (n div 10)" by (rule Suc.IH)
  then show ?case
    using Suc.prems by (simp add: be_digits_snoc c_div_nonneg c_mod_nonneg)
qed



lemma load_loop_three:
  "load_loop [b0, b1, b2] 0 m =
     Inr (m[0 := ((m ! 0 * 10 + uint b0) * 10 + uint b1) * 10 + uint b2], 3)"
  by (cases m) (simp_all add: NUM_DIGITS_def NUM_MAILBOXES_def)

lemma drop_be_digits: "drop (Suc 0) (be_digits (Suc k) n) = be_digits k n"
proof -
  have "drop (Suc 0) (be_digits (Suc k) n) = map (\<lambda>i. (n div 10 ^ (Suc k - 1 - i)) mod 10) [1..<Suc k]"
    by (simp add: be_digits_def drop_map)
  also have "[1..<Suc k] = map Suc [0..<k]"
    by (simp add: map_Suc_upt)
  finally show ?thesis
    by (simp add: be_digits_def comp_def)
qed

lemma fputc_all_room:
  "length bs \<le> room f \<Longrightarrow>
   fputc_all bs f = Some \<lparr>written = written f @ map word_of_int bs, room = room f - length bs\<rparr>"
proof (induction bs arbitrary: f)
  case Nil
  show ?case by simp
next
  case (Cons b bs)
  then show ?case by (simp add: fputc_def)
qed

lemma fputc_all_full:
  "room f < length bs \<Longrightarrow> fputc_all bs f = None"
proof (induction bs arbitrary: f)
  case Nil
  then show ?case by simp
next
  case (Cons b bs)
  then show ?case by (simp add: fputc_def)
qed

lemma length_be_digits: "length (be_digits k n) = k"
  by (simp add: be_digits_def)

lemma load_loop_fits:
  "i + length bs \<le> NUM_MAILBOXES * NUM_DIGITS \<Longrightarrow>
   \<exists>m'. load_loop bs i m = Inr (m', i + length bs) \<and> length m' = length m"
proof (induction bs arbitrary: i m)
  case Nil
  show ?case by simp
next
  case (Cons b bs)
  from Cons.prems have "i div NUM_DIGITS < NUM_MAILBOXES"
    by (simp add: NUM_DIGITS_def NUM_MAILBOXES_def)
  moreover from Cons.prems have "Suc i + length bs \<le> NUM_MAILBOXES * NUM_DIGITS"
    by simp
  then obtain m' where "load_loop bs (Suc i) (m[i div NUM_DIGITS := m ! (i div NUM_DIGITS) * 10 + uint b])
      = Inr (m', Suc i + length bs)" and "length m' = length m"
    using Cons.IH [of "Suc i" "m[i div NUM_DIGITS := m ! (i div NUM_DIGITS) * 10 + uint b]"]
    by auto
  ultimately show ?case by simp
qed

lemma load_loop_overrun:
  "i \<le> NUM_MAILBOXES * NUM_DIGITS \<Longrightarrow> NUM_MAILBOXES * NUM_DIGITS < i + length bs \<Longrightarrow>
   load_loop bs i m = Inl (Write_outside_mailboxes (int NUM_MAILBOXES))"
proof (induction bs arbitrary: i m)
  case Nil
  then show ?case by simp
next
  case (Cons b bs)
  show ?case
  proof (cases "i = NUM_MAILBOXES * NUM_DIGITS")
    case True
    then show ?thesis by (simp add: NUM_DIGITS_def)
  next
    case False
    with Cons.prems have lt: "i < NUM_MAILBOXES * NUM_DIGITS" by simp
    then have "i div NUM_DIGITS < NUM_MAILBOXES"
      by (simp add: NUM_DIGITS_def NUM_MAILBOXES_def)
    moreover have "load_loop bs (Suc i) (m[i div NUM_DIGITS := m ! (i div NUM_DIGITS) * 10 + uint b])
        = Inl (Write_outside_mailboxes (int NUM_MAILBOXES))"
      using lt Cons.prems by (intro Cons.IH) simp_all
    ultimately show ?thesis by simp
  qed
qed

lemma OPS_nth:
  "OPS ! 0 = Some (op_total lmc_halt)"
  "OPS ! 4 = None"
  "OPS ! 9 = Some (op_console lmc_io)"
  by (simp_all add: OPS_def)

lemma lmc_cycle_bad:
  assumes pc: "0 \<le> cpu_pc (cpu s)" "cpu_pc (cpu s) < int NUM_MAILBOXES"
    and ins: "ins = mailboxes s ! nat (cpu_pc (cpu s))"
    and opc: "opc = c_div ins (int NUM_MAILBOXES)" and ad: "ad = c_mod ins (int NUM_MAILBOXES)"
    and bad: "opc = 4 \<or> opc > 9 \<or> (opc = 9 \<and> ad \<noteq> 1 \<and> ad \<noteq> 2)"
  shows "lmc_cycle s io = Some (Inr (bad_instruction (decoded s ins) io))"
proof -
  have rd: "mb_read (mailboxes s) (cpu_pc (cpu s)) = Inr ins"
    using pc ins by (simp add: mb_read_def)
  have flds: "cpu_opcode (cpu (decoded s ins)) = opc" "cpu_addr (cpu (decoded s ins)) = ad"
    by (simp_all add: decoded_def opc ad)
  have cyc: "lmc_cycle s io =
      (if opc > 9 then Some (Inr (bad_instruction (decoded s ins) io))
       else if opc < 0 then Some (Inl (Read_outside_OPS opc))
       else (case OPS ! nat opc of
               None \<Rightarrow> Some (Inr (bad_instruction (decoded s ins) io))
             | Some h \<Rightarrow> h (decoded s ins) io))"
    unfolding lmc_cycle_def rd sum.case Let_def decoded_def [symmetric] flds ..
  from bad consider "opc > 9" | "opc = 4" | "opc = 9" "ad \<noteq> 1" "ad \<noteq> 2" by auto
  then show ?thesis
  proof cases
    case 1
    then show ?thesis by (simp add: cyc)
  next
    case 2
    then show ?thesis by (simp add: cyc OPS_nth)
  next
    case 3
    then show ?thesis by (simp add: cyc OPS_nth op_console_def lmc_io_def flds)
  qed
qed


lemmas ctype_defs = isblank_def isspace_def isdigit_def isupper_def isalpha_def islabel_def
  tolower_def code_def newline_def digit_val_def c_str_def strcasecmp_eq_def

lemmas lmasm_defs = lmasm_main_def pass2_line_def read_operand_def parse_addr_def parse_label_def
  lmasm_write_def lmasm_write_op_def lmasm_write_dat_def lmasm_write_io_def fputc_def
  OPCODES_def mk_opcode_def MAX_LABEL_LEN_def MAX_NUM_DIGITS_def INT_MAX_def

lemma mk_conf_3: "mk_conf 3 = \<lparr>num_digits = 3, max_addr = 99, max_dat = 999\<rparr>"
  by (simp add: mk_conf_def numeral_3_eq_3 c_div_def)

lemma encode_decimal_3:
  "encode_decimal n 3 = [c_mod (c_div (c_div n 10) 10) 10, c_mod (c_div n 10) 10, c_mod n 10]"
  by (simp add: numeral_3_eq_3)

lemma lmc_loop_mono:
  "lmc_loop n s io = Some r \<Longrightarrow> lmc_loop (n + k) s io = Some r"
proof (induction n arbitrary: s io)
  case 0
  then show ?case by (cases k) (simp_all split: if_splits)
next
  case (Suc n)
  then show ?case
    by (auto split: if_splits option.splits sum.splits prod.splits)
qed

lemma lmc_main_mono:
  assumes "lmc_main img e inp n = Some r"
  shows "lmc_main img e inp (n + k) = Some r"
proof (cases "load_loop img 0 (replicate NUM_MAILBOXES 0)")
  case (Inl f)
  with assms show ?thesis by (simp add: lmc_main_def)
next
  case (Inr p)
  obtain m i where p: "p = (m, i)" by (cases p)
  show ?thesis
  proof (cases "e \<or> i mod NUM_DIGITS \<noteq> 0")
    case True
    with assms Inr p show ?thesis by (auto simp: lmc_main_def)
  next
    case False
    let ?s = "\<lparr>mailboxes = m, cpu = cpu0\<rparr>"
    let ?io = "\<lparr>stdin = inp, stdout = [Loaded (i div NUM_DIGITS)], stderr = []\<rparr>"
    from assms Inr p False obtain q where q: "lmc_loop n ?s ?io = Some q"
      by (auto simp: lmc_main_def split: option.splits simp del: lmc_loop.simps)
    from lmc_loop_mono [OF q, of k] have "lmc_loop (n + k) ?s ?io = Some q" .
    with assms q Inr p False show ?thesis
      by (simp add: lmc_main_def del: lmc_loop.simps)
  qed
qed

lemma pass1_instruction_line:
  "pass1 ('' HLT'' @ newline # rest) a l labels = pass1 rest (a + 1) (l + 1) labels"
  by (simp add: ctype_defs)

lemma pass1_instruction_lines:
  "pass1 (concat (replicate k ('' HLT'' @ [newline])) @ rest) a l labels =
     pass1 rest (a + int k) (l + int k) labels"
proof (induction k arbitrary: a l)
  case 0
  show ?case by simp
next
  case (Suc k)
  have "pass1 (concat (replicate (Suc k) ('' HLT'' @ [newline])) @ rest) a l labels =
      pass1 ('' HLT'' @ newline # (concat (replicate k ('' HLT'' @ [newline])) @ rest)) a l labels"
    by simp
  also have "\<dots> = pass1 (concat (replicate k ('' HLT'' @ [newline])) @ rest) (a + 1) (l + 1) labels"
    by (rule pass1_instruction_line)
  also have "\<dots> = pass1 rest (a + 1 + int k) (l + 1 + int k) labels"
    by (rule Suc.IH)
  finally show ?case by (simp add: add.assoc)
qed

lemma find_HLT_COB:
  "find_opcode OPCODES ''HLT'' = Some HLT"
  "find_opcode OPCODES ''COB'' = Some COB"
  by (simp_all add: OPCODES_def mk_opcode_def HLT_def COB_def ctype_defs)

lemma max_addr_nonneg: "1 \<le> nd \<Longrightarrow> 0 \<le> max_addr (mk_conf nd)"
  by (simp add: mk_conf_fields)

lemma encode_decimal_zero: "encode_decimal 0 k = replicate k 0"
  by (induction k) (simp_all add: c_div_def c_mod_def replicate_append_same)

lemma write_HLT_COB:
  assumes "1 \<le> nd"
  shows "lmasm_write HLT (mk_conf nd) 0 f = lmasm_write COB (mk_conf nd) 0 f"
  using max_addr_nonneg [OF assms]
  by (simp add: lmasm_write_def lmasm_write_op_def HLT_def COB_def mk_opcode_def
      del: encode_decimal.simps)

lemma write_HLT:
  assumes "1 \<le> nd" "nd \<le> MAX_NUM_DIGITS" "nd \<le> room f"
  shows "lmasm_write HLT (mk_conf nd) 0 f =
     Inr \<lparr>written = written f @ replicate nd 0, room = room f - nd\<rparr>"
proof -
  obtain k where k: "nd = Suc k" using assms(1) by (cases nd) auto
  have "fputc_all (replicate k 0) \<lparr>written = written f @ [0], room = room f - 1\<rparr> =
      Some \<lparr>written = written f @ replicate nd 0, room = room f - nd\<rparr>"
    using assms(3) k by (simp add: fputc_all_room replicate_append_same)
  then show ?thesis
    using max_addr_nonneg [OF assms(1)] assms(2,3) k
    by (simp add: lmasm_write_def lmasm_write_op_def HLT_def mk_opcode_def fputc_def
        mk_conf_fields(1) encode_decimal_zero del: encode_decimal.simps)
qed



lemma read_operand_none:
  "read_operand NO_ARGUMENT s labels l = Inr (ad, r) \<Longrightarrow> ad = 0"
  by (auto simp: read_operand_def split: sum.splits simp del: finish_line.simps)

lemma pass2_line_mnemonic:
  assumes "find_opcode OPCODES [m0, m1, m2] = Some ins"
    and "\<not> isblank m0" "\<not> islabel CHR '' ''" "m0 \<noteq> newline"
  shows "pass2_line conf labels (CHR '' '' # m0 # m1 # m2 # rest) l f =
     (if (case rest of [] \<Rightarrow> False | e # es \<Rightarrow> \<not> isspace e) then Inl (Opcode_too_long l)
      else (case read_operand (op_arg_format ins) (dropWhile isblank rest) labels l of
              Inl e \<Rightarrow> Inl e
            | Inr (ad, r) \<Rightarrow>
                (case lmasm_write ins conf ad f of
                   Inl e \<Rightarrow> Inl e
                 | Inr f' \<Rightarrow> Inr (r, f'))))"
proof -
  have sp: "isblank CHR '' ''" "CHR '' '' \<noteq> newline" "CHR '' '' \<noteq> CHR ''/''"
    by (simp_all add: isblank_def newline_def)
  have dw: "dropWhile isblank (dropWhile islabel (CHR '' '' # m0 # m1 # m2 # rest)) =
      m0 # m1 # m2 # rest"
    using assms(2,3) sp by simp
  show ?thesis
    unfolding pass2_line_def list.case dw
    using sp assms(1,4) by (simp del: find_opcode.simps)
qed

lemma pass2_line_HLT_COB:
  assumes "1 \<le> nd"
  shows "pass2_line (mk_conf nd) labels ('' HLT'' @ rest) l f =
         pass2_line (mk_conf nd) labels ('' COB'' @ rest) l f"
proof -
  have c: "\<not> isblank CHR ''H''" "\<not> isblank CHR ''C''" "\<not> islabel CHR '' ''"
    "CHR ''H'' \<noteq> newline" "CHR ''C'' \<noteq> newline"
    by (simp_all add: ctype_defs)
  have af: "op_arg_format HLT = NO_ARGUMENT" "op_arg_format COB = NO_ARGUMENT"
    by (simp_all add: HLT_def COB_def mk_opcode_def)
  have h: "pass2_line (mk_conf nd) labels ('' HLT'' @ rest) l f =
     (if (case rest of [] \<Rightarrow> False | e # es \<Rightarrow> \<not> isspace e) then Inl (Opcode_too_long l)
      else (case read_operand NO_ARGUMENT (dropWhile isblank rest) labels l of
              Inl e \<Rightarrow> Inl e
            | Inr (ad, r) \<Rightarrow>
                (case lmasm_write HLT (mk_conf nd) ad f of
                   Inl e \<Rightarrow> Inl e
                 | Inr f' \<Rightarrow> Inr (r, f'))))"
    using pass2_line_mnemonic [OF find_HLT_COB(1) c(1) c(3) c(4), of "mk_conf nd" labels rest l f]
    by (simp only: af append_Cons append_Nil)
  have k: "pass2_line (mk_conf nd) labels ('' COB'' @ rest) l f =
     (if (case rest of [] \<Rightarrow> False | e # es \<Rightarrow> \<not> isspace e) then Inl (Opcode_too_long l)
      else (case read_operand NO_ARGUMENT (dropWhile isblank rest) labels l of
              Inl e \<Rightarrow> Inl e
            | Inr (ad, r) \<Rightarrow>
                (case lmasm_write COB (mk_conf nd) ad f of
                   Inl e \<Rightarrow> Inl e
                 | Inr f' \<Rightarrow> Inr (r, f'))))"
    using pass2_line_mnemonic [OF find_HLT_COB(2) c(2) c(3) c(5), of "mk_conf nd" labels rest l f]
    by (simp only: af append_Cons append_Nil)
  show ?thesis
  proof (cases "read_operand NO_ARGUMENT (dropWhile isblank rest) labels l")
    case (Inl e)
    then show ?thesis by (simp only: h k sum.case)
  next
    case (Inr p)
    obtain ad r where p: "p = (ad, r)" by (cases p)
    have "ad = 0" using Inr p by (auto dest: read_operand_none)
    then show ?thesis
      using write_HLT_COB [OF assms, of f] by (simp only: h k Inr p sum.case prod.case)
  qed
qed


lemma lmc_cycle_halt:
  assumes "\<not> cpu_halted (cpu s)" "0 \<le> cpu_pc (cpu s)" "cpu_pc (cpu s) < int NUM_MAILBOXES"
    and "mailboxes s ! nat (cpu_pc (cpu s)) = 0"
  shows "lmc_cycle s io = Some (Inr (lmc_halt (decoded s 0), io))"
    and "lmc_loop (Suc n) s io = Some (Inr (lmc_halt (decoded s 0), io))"
proof -
  have rd: "mb_read (mailboxes s) (cpu_pc (cpu s)) = Inr 0"
    using assms by (simp add: mb_read_def)
  show c: "lmc_cycle s io = Some (Inr (lmc_halt (decoded s 0), io))"
    unfolding lmc_cycle_def rd sum.case Let_def decoded_def [symmetric]
    by (simp add: decoded_def c_div_def c_mod_def OPS_nth op_total_def)
  show "lmc_loop (Suc n) s io = Some (Inr (lmc_halt (decoded s 0), io))"
    using assms(1) by (cases n) (simp_all add: c lmc_halt_def)
qed

lemma write_dat_in_range:
  assumes "0 \<le> v" "v \<le> max_dat conf" "num_digits conf \<le> MAX_NUM_DIGITS"
    "num_digits conf \<le> room f"
  shows "lmasm_write_dat self conf v f =
     Inr \<lparr>written = written f @ map word_of_int (be_digits (num_digits conf) v),
          room = room f - num_digits conf\<rparr>"
  using assms
  by (simp add: lmasm_write_dat_def encode_decimal_digits fputc_all_room length_be_digits
      del: encode_decimal.simps)

lemma write_op_in_range:
  assumes "0 \<le> ad" "ad \<le> max_addr conf" "1 \<le> num_digits conf"
    "num_digits conf \<le> MAX_NUM_DIGITS" "num_digits conf \<le> room f"
  shows "lmasm_write_op self conf ad f =
     Inr \<lparr>written = written f @ map word_of_int (op_code self # be_digits (num_digits conf - 1) ad),
          room = room f - num_digits conf\<rparr>"
proof -
  obtain k where k: "num_digits conf = Suc k" using assms(3) by (cases "num_digits conf") auto
  have "fputc_all (be_digits k ad)
        \<lparr>written = written f @ [word_of_int (op_code self)], room = room f - 1\<rparr> =
      Some \<lparr>written = written f @ map word_of_int (op_code self # be_digits k ad),
            room = room f - Suc k\<rparr>"
    using assms(5) k by (simp add: fputc_all_room length_be_digits)
  then show ?thesis
    using assms k
    by (simp add: lmasm_write_op_def fputc_def encode_decimal_digits drop_be_digits
        del: encode_decimal.simps)
qed

lemma pass2_boundary_lines:
  "pass2 (mk_conf 3) labels ('' DAT 1000'' @ newline # rest) l g = Inl (Dat_out_of_range 1000)"
  "pass2 (mk_conf 3) labels ('' LDA 100'' @ newline # rest) l g =
     Inl (Mailbox_out_of_range (Some ''LDA'') 100)"
  "3 \<le> room g \<Longrightarrow>
   pass2 (mk_conf 3) labels ('' DAT 999'' @ newline # rest) l g =
     pass2 (mk_conf 3) labels rest (l + 1) \<lparr>written = written g @ [9, 9, 9], room = room g - 3\<rparr>"
  "3 \<le> room g \<Longrightarrow>
   pass2 (mk_conf 3) labels ('' LDA 99'' @ newline # rest) l g =
     pass2 (mk_conf 3) labels rest (l + 1) \<lparr>written = written g @ [5, 9, 9], room = room g - 3\<rparr>"
  by (simp_all add: ctype_defs lmasm_defs mk_conf_3 encode_decimal_3 c_div_def c_mod_def
      del: encode_decimal.simps) (simp_all add: numeral_3_eq_3)

lemma resolve_Some_iff:
  "resolve labels nm = Some a \<longleftrightarrow>
     (\<exists>i < length labels. label_name (labels ! i) = nm \<and> label_addr (labels ! i) = a
        \<and> (\<forall>j < i. label_name (labels ! j) \<noteq> nm))"
proof (induction labels)
  case Nil
  show ?case by simp
next
  case (Cons lb labels)
  show ?case
  proof (cases "nm = label_name lb")
    case True
    have "(\<exists>i < length (lb # labels). label_name ((lb # labels) ! i) = nm
        \<and> label_addr ((lb # labels) ! i) = a
        \<and> (\<forall>j < i. label_name ((lb # labels) ! j) \<noteq> nm)) \<longleftrightarrow> label_addr lb = a"
    proof
      assume "\<exists>i < length (lb # labels). label_name ((lb # labels) ! i) = nm
        \<and> label_addr ((lb # labels) ! i) = a
        \<and> (\<forall>j < i. label_name ((lb # labels) ! j) \<noteq> nm)"
      then obtain i where i: "label_addr ((lb # labels) ! i) = a"
        "\<forall>j < i. label_name ((lb # labels) ! j) \<noteq> nm" by blast
      have "i = 0"
      proof (rule ccontr)
        assume "i \<noteq> 0"
        then have "0 < i" by simp
        with i(2) have "label_name ((lb # labels) ! 0) \<noteq> nm" by blast
        with True show False by simp
      qed
      with i(1) show "label_addr lb = a" by simp
    next
      assume "label_addr lb = a"
      with True show "\<exists>i < length (lb # labels). label_name ((lb # labels) ! i) = nm
        \<and> label_addr ((lb # labels) ! i) = a
        \<and> (\<forall>j < i. label_name ((lb # labels) ! j) \<noteq> nm)"
        by (intro exI [of _ 0]) simp
    qed
    with True show ?thesis by auto
  next
    case False
    have "(\<exists>i < length (lb # labels). label_name ((lb # labels) ! i) = nm
        \<and> label_addr ((lb # labels) ! i) = a
        \<and> (\<forall>j < i. label_name ((lb # labels) ! j) \<noteq> nm)) \<longleftrightarrow>
      (\<exists>i < length labels. label_name (labels ! i) = nm \<and> label_addr (labels ! i) = a
        \<and> (\<forall>j < i. label_name (labels ! j) \<noteq> nm))" (is "?L \<longleftrightarrow> ?R")
    proof
      assume ?L
      then obtain i where i: "i < length (lb # labels)" "label_name ((lb # labels) ! i) = nm"
        "label_addr ((lb # labels) ! i) = a" "\<forall>j < i. label_name ((lb # labels) ! j) \<noteq> nm"
        by blast
      from i(2) False obtain k where k: "i = Suc k" by (cases i) auto
      have "\<forall>j < k. label_name (labels ! j) \<noteq> nm"
      proof (intro allI impI)
        fix j assume "j < k"
        then have "Suc j < i" using k by simp
        with i(4) have "label_name ((lb # labels) ! Suc j) \<noteq> nm" by blast
        then show "label_name (labels ! j) \<noteq> nm" by simp
      qed
      with i k show ?R by (intro exI [of _ k]) simp
    next
      assume ?R
      then obtain i where i: "i < length labels" "label_name (labels ! i) = nm"
        "label_addr (labels ! i) = a" "\<forall>j < i. label_name (labels ! j) \<noteq> nm"
        by blast
      have "\<forall>j < Suc i. label_name ((lb # labels) ! j) \<noteq> nm"
      proof (intro allI impI)
        fix j assume j: "j < Suc i"
        show "label_name ((lb # labels) ! j) \<noteq> nm"
        proof (cases j)
          case 0
          with False show ?thesis by simp
        next
          case (Suc m)
          with j i(4) show ?thesis by simp
        qed
      qed
      with i show ?L by (intro exI [of _ "Suc i"]) simp
    qed
    with False Cons.IH show ?thesis by simp
  qed
qed

lemma resolve_None_iff:
  "resolve labels nm = None \<longleftrightarrow> (\<forall>lb \<in> set labels. label_name lb \<noteq> nm)"
  by (induction labels) auto

lemma resolve_append:
  "resolve (xs @ ys) nm = (case resolve xs nm of None \<Rightarrow> resolve ys nm | Some a \<Rightarrow> Some a)"
  by (induction xs) simp_all

lemma label_chars_token:
  "list_all islabel nm \<Longrightarrow> i + length nm \<le> MAX_LABEL_LEN \<Longrightarrow>
   (case rest of [] \<Rightarrow> True | c # cs \<Rightarrow> \<not> islabel c) \<Longrightarrow>
   label_chars i (nm @ rest) = (nm, rest)"
proof (induction nm arbitrary: i)
  case Nil
  then show ?case by (cases rest) simp_all
next
  case (Cons x nm)
  then show ?case by simp
qed

lemma parse_label_token:
  assumes "label_token nm rest"
  shows "parse_label (nm @ rest) l = Inr (nm, rest)"
proof -
  from assms obtain x xs where nm: "nm = x # xs" and x: "\<not> isdigit x"
    by (cases nm) (auto simp: label_token_def)
  have lc: "label_chars 0 (nm @ rest) = (nm, rest)"
    using assms by (intro label_chars_token) (simp_all add: label_token_def)
  have "\<not> (case rest of [] \<Rightarrow> False | c # cs \<Rightarrow> islabel c)"
    using assms by (cases rest) (simp_all add: label_token_def)
  then show ?thesis
    unfolding parse_label_def lc using x nm by simp
qed

lemma parse_addr_token:
  assumes "label_token nm rest"
  shows "parse_addr (nm @ rest) labels l =
     (case resolve labels nm of
        None \<Rightarrow> Inl (No_such_label l nm)
      | Some a \<Rightarrow>
          (case finish_line rest False l of Inl e \<Rightarrow> Inl e | Inr r \<Rightarrow> Inr (a, r)))"
proof -
  from assms obtain x xs where nm: "nm = x # xs" and x: "\<not> isdigit x" "islabel x"
    by (cases nm) (auto simp: label_token_def)
  have "parse_label (x # xs @ rest) l = Inr (nm, rest)"
    using parse_label_token [OF assms, of l] nm by simp
  then show ?thesis
    unfolding parse_addr_def nm using x by (simp del: finish_line.simps)
qed

lemma find_BRA: "find_opcode OPCODES ''BRA'' = Some BRA"
  by (simp add: OPCODES_def mk_opcode_def BRA_def ctype_defs)

lemma islabel_not_blank: "islabel c \<Longrightarrow> \<not> isblank c"
  by (auto simp: ctype_defs)

lemma pass1_label_definition:
  assumes "label_token nm rest" "length labels < 31"
  shows "pass1 (nm @ rest) ca l labels =
     pass1 rest ca (l + 1) (labels @ [\<lparr>label_name = nm, label_addr = ca\<rparr>])"
proof -
  from assms obtain x xs where nm: "nm = x # xs" and x: "islabel x"
    by (cases nm) (auto simp: label_token_def)
  have c: "x \<noteq> newline" "x \<noteq> CHR ''/''" "\<not> isblank x"
    using x by (auto simp: ctype_defs)
  have "parse_label (x # xs @ rest) (l + 1) = Inr (nm, rest)"
    using parse_label_token [OF assms(1), of "l + 1"] nm by simp
  then show ?thesis
    using c assms(2) by (simp add: nm)
qed

lemma c_mod_in_range:
  assumes "1 \<le> c_div x (int NUM_MAILBOXES)"
  shows "0 \<le> c_mod x (int NUM_MAILBOXES)" "c_mod x (int NUM_MAILBOXES) < int NUM_MAILBOXES"
proof -
  have pos: "0 \<le> x"
  proof (rule ccontr)
    assume "\<not> 0 \<le> x"
    then have "x < 0" by simp
    then have "c_div x (int NUM_MAILBOXES) \<le> 0"
      by (simp add: c_div_def NUM_MAILBOXES_def)
    with assms show False by simp
  qed
  then have "c_mod x (int NUM_MAILBOXES) = x mod 100"
    by (simp add: c_mod_nonneg NUM_MAILBOXES_def)
  then show "0 \<le> c_mod x (int NUM_MAILBOXES)" "c_mod x (int NUM_MAILBOXES) < int NUM_MAILBOXES"
    by (simp_all add: NUM_MAILBOXES_def)
qed

lemma OPS_all:
  "OPS ! Suc 0 = Some (op_memory lmc_add)"
  "OPS ! 2 = Some (op_memory lmc_sub)"
  "OPS ! 3 = Some (op_memory lmc_store)"
  "OPS ! 5 = Some (op_memory lmc_load)"
  "OPS ! 6 = Some (op_total lmc_branch)"
  "OPS ! 7 = Some (op_total lmc_branch_zero)"
  "OPS ! 8 = Some (op_total lmc_branch_positive)"
  by (simp_all add: OPS_def)

lemma lmc_cycle_reads_inside:
  assumes pc: "0 \<le> cpu_pc (cpu s)" "cpu_pc (cpu s) < int NUM_MAILBOXES"
  shows "lmc_cycle s io \<noteq> Some (Inl (Read_outside_mailboxes i))"
proof -
  define ins where "ins = mailboxes s ! nat (cpu_pc (cpu s))"
  define opc where "opc = c_div ins (int NUM_MAILBOXES)"
  define t where "t = decoded s ins"
  have rd: "mb_read (mailboxes s) (cpu_pc (cpu s)) = Inr ins"
    using pc by (simp add: mb_read_def ins_def)
  have flds: "cpu_opcode (cpu t) = opc" "cpu_addr (cpu t) = c_mod ins (int NUM_MAILBOXES)"
    "mailboxes t = mailboxes s"
    by (simp_all add: decoded_def opc_def t_def)
  have cyc: "lmc_cycle s io =
      (if opc > 9 then Some (Inr (bad_instruction t io))
       else if opc < 0 then Some (Inl (Read_outside_OPS opc))
       else (case OPS ! nat opc of
               None \<Rightarrow> Some (Inr (bad_instruction t io))
             | Some h \<Rightarrow> h t io))"
    unfolding lmc_cycle_def rd sum.case Let_def decoded_def [symmetric] t_def [symmetric] flds ..
  have inside: "mb_read (mailboxes t) (cpu_addr (cpu t)) =
      Inr (mailboxes s ! nat (c_mod ins (int NUM_MAILBOXES)))" if "1 \<le> opc"
    using c_mod_in_range [of ins] that
    by (simp add: mb_read_def flds opc_def)
  have store: "mb_write (mailboxes t) (cpu_addr (cpu t)) v =
      Inr ((mailboxes s)[nat (c_mod ins (int NUM_MAILBOXES)) := v])" if "1 \<le> opc" for v
    using c_mod_in_range [of ins] that
    by (simp add: mb_write_def flds opc_def)
  consider "opc > 9" | "opc < 0" | "opc = 0" | "opc = 1" | "opc = 2" | "opc = 3" | "opc = 4"
    | "opc = 5" | "opc = 6" | "opc = 7" | "opc = 8" | "opc = 9"
    by atomize_elim arith
  then show ?thesis
  proof cases
    case 1 then show ?thesis by (simp add: cyc)
  next
    case 2 then show ?thesis by (simp add: cyc)
  next
    case 3 then show ?thesis by (simp add: cyc OPS_nth op_total_def)
  next
    case 4 then show ?thesis
      using inside by (simp add: cyc OPS_all op_memory_def lmc_add_def Let_def)
  next
    case 5 then show ?thesis
      using inside by (simp add: cyc OPS_all op_memory_def lmc_sub_def Let_def)
  next
    case 6 then show ?thesis
      using store by (simp add: cyc OPS_all op_memory_def lmc_store_def)
  next
    case 7 then show ?thesis by (simp add: cyc OPS_nth)
  next
    case 8 then show ?thesis
      using inside by (simp add: cyc OPS_all op_memory_def lmc_load_def)
  next
    case 9 then show ?thesis by (simp add: cyc OPS_all op_total_def)
  next
    case 10 then show ?thesis by (simp add: cyc OPS_all op_total_def)
  next
    case 11 then show ?thesis by (simp add: cyc OPS_all op_total_def)
  next
    case 12 then show ?thesis
      by (simp add: cyc OPS_nth op_console_def split: option.splits)
  qed
qed

lemma find_DAT: "find_opcode OPCODES ''DAT'' = Some DAT"
  by (simp add: OPCODES_def mk_opcode_def DAT_def ctype_defs)

lemma find_opcode_alpha:
  "find_opcode OPCODES [m0, m1, m2] = Some ins \<Longrightarrow> isalpha m0"
  by (auto simp: OPCODES_def mk_opcode_def strcasecmp_eq_def c_str_def tolower_def isalpha_def
      isupper_def code_def split: if_splits)

lemma label_or_blank_first:
  "islabel c \<or> isblank c \<Longrightarrow> c \<noteq> newline \<and> c \<noteq> CHR ''/''"
  by (auto simp: ctype_defs)

lemma isalpha_not_blank: "isalpha c \<Longrightarrow> \<not> isblank c \<and> c \<noteq> newline"
  by (auto simp: ctype_defs)

lemma isblank_not_label: "isblank c \<Longrightarrow> \<not> islabel c \<and> isspace c"
  by (auto simp: ctype_defs)

lemma pass2_line_statement:
  assumes lab: "list_all islabel lab" and bl: "list_all isblank bl" "bl \<noteq> []"
    and ins: "find_opcode OPCODES [m0, m1, m2] = Some ins"
  shows "pass2_line conf labels (lab @ bl @ m0 # m1 # m2 # t) l f =
     (if (case t of [] \<Rightarrow> False | e # es \<Rightarrow> \<not> isspace e) then Inl (Opcode_too_long l)
      else (case read_operand (op_arg_format ins) (dropWhile isblank t) labels l of
              Inl e \<Rightarrow> Inl e
            | Inr (ad, r) \<Rightarrow>
                (case lmasm_write ins conf ad f of
                   Inl e \<Rightarrow> Inl e
                 | Inr f' \<Rightarrow> Inr (r, f'))))"
proof -
  let ?s = "lab @ bl @ m0 # m1 # m2 # t"
  obtain b bs where b: "bl = b # bs" "isblank b"
    using bl by (cases bl) auto
  have m0: "\<not> isblank m0" "m0 \<noteq> newline"
    using isalpha_not_blank [OF find_opcode_alpha [OF ins]] by simp_all
  obtain c cs where s: "?s = c # cs" and c: "islabel c \<or> isblank c"
    using lab b by (cases lab) auto
  have c': "c \<noteq> newline" "c \<noteq> CHR ''/''"
    using label_or_blank_first [OF c] by simp_all
  have "dropWhile islabel ?s = dropWhile islabel (bl @ m0 # m1 # m2 # t)"
    using lab by (intro dropWhile_append2) (simp add: list_all_iff)
  also have "\<dots> = bl @ m0 # m1 # m2 # t"
    using b isblank_not_label [OF b(2)] by simp
  finally have d1: "dropWhile islabel ?s = bl @ m0 # m1 # m2 # t" .
  have "dropWhile isblank (bl @ m0 # m1 # m2 # t) = dropWhile isblank (m0 # m1 # m2 # t)"
    using bl(1) by (intro dropWhile_append2) (simp add: list_all_iff)
  then have d2: "dropWhile isblank (dropWhile islabel ?s) = m0 # m1 # m2 # t"
    using m0(1) d1 by simp
  have "pass2_line conf labels ?s l f =
      (case dropWhile isblank (dropWhile islabel ?s) of
               [] \<Rightarrow> Inr ([], f)
             | d # ds \<Rightarrow>
                 if d = newline then Inr (ds, f)
                 else
                   (case ds of
                      n1 # n2 # t \<Rightarrow>
                        if (case t of [] \<Rightarrow> False | e # es \<Rightarrow> \<not> isspace e)
                        then Inl (Opcode_too_long l)
                        else
                          (case find_opcode OPCODES [d, n1, n2] of
                             None \<Rightarrow> Inl (No_such_instruction l [d, n1, n2])
                           | Some ins \<Rightarrow>
                               (case read_operand (op_arg_format ins) (dropWhile isblank t)
                                       labels l of
                                  Inl e \<Rightarrow> Inl e
                                | Inr (ad, r) \<Rightarrow>
                                    (case lmasm_write ins conf ad f of
                                       Inl e \<Rightarrow> Inl e
                                     | Inr f' \<Rightarrow> Inr (r, f'))))
                    | _ \<Rightarrow> Inl Unexpected_EOF))"
    unfolding pass2_line_def [of conf labels ?s l f]
    by (subst (1 2) s) (simp add: c' del: dropWhile.simps)
  then show ?thesis
    unfolding d2 using m0(2) ins by (simp del: find_opcode.simps)
qed

lemma pass2_line_label_operand:
  assumes lab: "list_all islabel lab" and bl: "list_all isblank bl" "bl \<noteq> []"
    and ins: "find_opcode OPCODES [m0, m1, m2] = Some ins"
    and af: "op_arg_format ins \<noteq> NO_ARGUMENT"
    and sep: "list_all isblank sep" "sep \<noteq> []"
    and tok: "label_token nm rest"
  shows "pass2_line conf labels (lab @ bl @ m0 # m1 # m2 # sep @ nm @ rest) l f =
     (case resolve labels nm of
        None \<Rightarrow> Inl (No_such_label l nm)
      | Some a \<Rightarrow>
          (case finish_line rest False l of
             Inl e \<Rightarrow> Inl e
           | Inr r \<Rightarrow>
               (case lmasm_write ins conf a f of
                  Inl e \<Rightarrow> Inl e
                | Inr f' \<Rightarrow> Inr (r, f'))))"
proof -
  obtain e es where e: "sep = e # es" "isblank e"
    using sep by (cases sep) auto
  obtain x xs where nm: "nm = x # xs" and x: "islabel x"
    using tok by (cases nm) (auto simp: label_token_def)
  have sp: "\<not> (case sep @ nm @ rest of [] \<Rightarrow> False | e # es \<Rightarrow> \<not> isspace e)"
    using e isblank_not_label [OF e(2)] by simp
  have "dropWhile isblank (sep @ nm @ rest) = dropWhile isblank (nm @ rest)"
    using sep(1) by (intro dropWhile_append2) (simp add: list_all_iff)
  then have dw: "dropWhile isblank (sep @ nm @ rest) = nm @ rest"
    using islabel_not_blank [OF x] nm by simp
  have ro: "read_operand (op_arg_format ins) (nm @ rest) labels l = parse_addr (nm @ rest) labels l"
    using af x nm by (cases "op_arg_format ins") (simp_all add: read_operand_def)
  show ?thesis
    unfolding pass2_line_statement [OF lab bl ins] dw ro parse_addr_token [OF tok]
    using sp
    by (simp split: option.splits sum.splits del: finish_line.simps)
qed

lemma pass1_definition_line:
  "pass1 (''X DAT 1'' @ newline # rest) a l labels =
     (if length labels < 31
      then pass1 rest (a + 1) (l + 2) (labels @ [\<lparr>label_name = ''X'', label_addr = a\<rparr>])
      else Inl Label_table_overrun)"
  by (simp add: ctype_defs parse_label_def MAX_LABEL_LEN_def add.commute)

lemma label_definitions_Suc:
  "label_definitions (Suc k) = label_definitions k @ ''X DAT 1'' @ [newline]"
  by (induction k) (simp_all add: label_definitions_def)

lemma pass1_definition_lines:
  "length labels + k \<le> 31 \<Longrightarrow>
   pass1 (label_definitions k @ rest) a l labels =
     pass1 rest (a + int k) (l + 2 * int k)
       (labels @ map (\<lambda>i. \<lparr>label_name = ''X'', label_addr = a + int i\<rparr>) [0..<k])"
proof (induction k arbitrary: a l labels)
  case 0
  show ?case by (simp add: label_definitions_def)
next
  case (Suc k)
  have "label_definitions (Suc k) @ rest = ''X DAT 1'' @ newline # (label_definitions k @ rest)"
    by (simp add: label_definitions_def)
  then have "pass1 (label_definitions (Suc k) @ rest) a l labels =
      pass1 (label_definitions k @ rest) (a + 1) (l + 2)
        (labels @ [\<lparr>label_name = ''X'', label_addr = a\<rparr>])"
    using Suc.prems by (simp only: pass1_definition_line) simp
  also have "\<dots> = pass1 rest (a + 1 + int k) (l + 2 + 2 * int k)
       ((labels @ [\<lparr>label_name = ''X'', label_addr = a\<rparr>]) @
          map (\<lambda>i. \<lparr>label_name = ''X'', label_addr = a + 1 + int i\<rparr>) [0..<k])"
    using Suc.prems by (intro Suc.IH) simp
  also have "(labels @ [\<lparr>label_name = ''X'', label_addr = a\<rparr>]) @
          map (\<lambda>i. \<lparr>label_name = ''X'', label_addr = a + 1 + int i\<rparr>) [0..<k] =
      labels @ map (\<lambda>i. \<lparr>label_name = ''X'', label_addr = a + int i\<rparr>) [0..<Suc k]"
    by (simp add: upt_rec [of 0 "Suc k"] map_Suc_upt [symmetric] del: upt_Suc) 
  finally show ?case by (simp add: algebra_simps)
qed

subsection \<open>Address instructions encode and decode (C1)\<close>




subsection \<open>Label resolution (C2)\<close>

text \<open>
  C2 says that resolution scans the table of the definitions of Pass 1 in the order of
  definition, and that later definitions of a name are kept. The table is allocated for
  32 labels of \<^verbatim>\<open>sizeof (struct lmasm_label)\<close> bytes; at the 32nd definition
  \<^verbatim>\<open>main\<close> reallocates it with \<^verbatim>\<open>label_buf_size * sizeof (void *)\<close> bytes, a block
  smaller than the 31 labels already stored occupy, and writes the 32nd label outside
  that block. A source of 31 lines \<^verbatim>\<open>X DAT 1\<close> leaves Pass 1 with the 31 definitions
  in order; with one line more, Pass 1 and \<^verbatim>\<open>main\<close> end in the write outside the
  table.
\<close>

theorem thirty_two_definitions_overrun:
  "pass1 (label_definitions 31) 0 0 [] =
     Inr (31, map (\<lambda>i. \<lparr>label_name = ''X'', label_addr = int i\<rparr>) [0..<31])
   \<and> pass1 (label_definitions 32) 0 0 [] = Inl Label_table_overrun
   \<and> lmasm_main (label_definitions 32) rm = Inl Label_table_overrun"
proof -
  have a: "pass1 (label_definitions 31) 0 0 [] =
     Inr (31, map (\<lambda>i. \<lparr>label_name = ''X'', label_addr = int i\<rparr>) [0..<31])"
    using pass1_definition_lines [of "[]" 31 "[]" 0 0] by simp
  have "label_definitions 32 = label_definitions (Suc 31)"
    by simp
  then have "label_definitions 32 = label_definitions 31 @ ''X DAT 1'' @ [newline]"
    by (simp only: label_definitions_Suc)
  then have "pass1 (label_definitions 32) 0 0 [] =
      pass1 (''X DAT 1'' @ [newline]) 31 62
        (map (\<lambda>i. \<lparr>label_name = ''X'', label_addr = int i\<rparr>) [0..<31])"
    using pass1_definition_lines [of "[]" 31 "''X DAT 1'' @ [newline]" 0 0] by simp
  also have "\<dots> = Inl Label_table_overrun"
    using pass1_definition_line [of "[]" 31 62
        "map (\<lambda>i. \<lparr>label_name = ''X'', label_addr = int i\<rparr>) [0..<31]"]
    by (simp del: pass1.simps)
  finally have b: "pass1 (label_definitions 32) 0 0 [] = Inl Label_table_overrun" .
  then have c: "lmasm_main (label_definitions 32) rm = Inl Label_table_overrun"
    by (simp add: lmasm_main_def)
  from a b c show ?thesis by (intro conjI)
qed


text \<open>
  Within the capacity of the table, what C2 says holds. The lookup of \<^verbatim>\<open>parse_addr\<close>
  returns the address of the first label of the table, in the order of definition,
  whose name equals the operand, and fails exactly when no label has that name;
  definitions appended later never change a result that was found. Pass 1 appends every
  definition below the 32nd to the table without looking at the names already there.
  For an operand that is a label token, \<^verbatim>\<open>parse_addr\<close> returns the resolved address or
  the error "no such label" with the current line and the name. When the second loop is
  at a line made of an optional label, blanks, a mnemonic that takes an operand (any
  entry of the catalogue but the ones without argument), blanks and the label token,
  it writes the instruction with the resolved address and goes on, or, the label being
  undefined, ends the run with that error for the line and the name; \<^verbatim>\<open>main\<close> then
  returns 1.
\<close>

theorem resolve_first_definition:
  assumes tok: "label_token nm rest"
    and lab: "list_all islabel lab" and bl: "list_all isblank bl" "bl \<noteq> []"
    and ins: "find_opcode OPCODES [m0, m1, m2] = Some ins"
    and af: "op_arg_format ins \<noteq> NO_ARGUMENT"
    and sep: "list_all isblank sep" "sep \<noteq> []"
    and line: "line = lab @ bl @ m0 # m1 # m2 # sep @ nm @ rest"
  shows "(resolve labels nm = Some a \<longleftrightarrow>
           (\<exists>i < length labels. label_name (labels ! i) = nm \<and> label_addr (labels ! i) = a
              \<and> (\<forall>j < i. label_name (labels ! j) \<noteq> nm)))
     \<and> (resolve labels nm = None \<longleftrightarrow> (\<forall>lb \<in> set labels. label_name lb \<noteq> nm))
     \<and> resolve (labels @ later) nm =
          (case resolve labels nm of None \<Rightarrow> resolve later nm | Some b \<Rightarrow> Some b)
     \<and> (length labels < 31 \<longrightarrow>
          pass1 (nm @ rest) ca l labels =
            pass1 rest ca (l + 1) (labels @ [\<lparr>label_name = nm, label_addr = ca\<rparr>]))
     \<and> parse_addr (nm @ rest) labels l =
          (case resolve labels nm of
             None \<Rightarrow> Inl (No_such_label l nm)
           | Some b \<Rightarrow>
               (case finish_line rest False l of Inl e \<Rightarrow> Inl e | Inr r \<Rightarrow> Inr (b, r)))
     \<and> pass2 conf labels line l f =
          (case resolve labels nm of
             None \<Rightarrow> Inl (No_such_label (l + 1) nm)
           | Some b \<Rightarrow>
               (case finish_line rest False (l + 1) of
                  Inl e \<Rightarrow> Inl e
                | Inr r \<Rightarrow>
                    (case lmasm_write ins conf b f of
                       Inl e \<Rightarrow> Inl e
                     | Inr f' \<Rightarrow> pass2 conf labels r (l + 1) f')))
     \<and> (resolve labels nm = None \<and> pass1 line 0 0 [] = Inr (n, labels) \<and> n \<le> 99 \<longrightarrow>
          lmasm_main line k = Inl (No_such_label 1 nm)
        \<and> lmasm_exit_code (lmasm_main line k) = 1)"
proof -
  obtain c cs where s: "line = c # cs"
    using bl(2) by (cases line) (simp_all add: line)
  have ln: "pass2_line cf labels line i g =
     (case resolve labels nm of
        None \<Rightarrow> Inl (No_such_label i nm)
      | Some b \<Rightarrow>
          (case finish_line rest False i of
             Inl e \<Rightarrow> Inl e
           | Inr r \<Rightarrow>
               (case lmasm_write ins cf b g of
                  Inl e \<Rightarrow> Inl e
                | Inr f' \<Rightarrow> Inr (r, f'))))" for cf i g
    unfolding line by (rule pass2_line_label_operand [OF lab bl ins af sep tok])
  have p2: "pass2 cf labels line i g =
          (case resolve labels nm of
             None \<Rightarrow> Inl (No_such_label (i + 1) nm)
           | Some b \<Rightarrow>
               (case finish_line rest False (i + 1) of
                  Inl e \<Rightarrow> Inl e
                | Inr r \<Rightarrow>
                    (case lmasm_write ins cf b g of
                       Inl e \<Rightarrow> Inl e
                     | Inr f' \<Rightarrow> pass2 cf labels r (i + 1) f')))" for cf i g
    using ln [of cf "i + 1" g] unfolding s
    by (simp split: option.splits sum.splits del: finish_line.simps)
  have p1: "length labels < 31 \<longrightarrow>
          pass1 (nm @ rest) ca l labels =
            pass1 rest ca (l + 1) (labels @ [\<lparr>label_name = nm, label_addr = ca\<rparr>])"
    using pass1_label_definition [OF tok] by blast
  have m: "resolve labels nm = None \<and> pass1 line 0 0 [] = Inr (n, labels) \<and> n \<le> 99 \<longrightarrow>
          lmasm_main line k = Inl (No_such_label 1 nm)
        \<and> lmasm_exit_code (lmasm_main line k) = 1"
  proof (intro impI, elim conjE)
    assume r: "resolve labels nm = None"
      and p: "pass1 line 0 0 [] = Inr (n, labels)" and n: "n \<le> 99"
    have "lmasm_main line k = Inl (No_such_label 1 nm)"
      unfolding lmasm_main_def Let_def p sum.case prod.case
      using n p2 [of "mk_conf 3" 0 "\<lparr>written = [], room = k\<rparr>"] r
      by (simp add: mk_conf_3 del: pass2.simps)
    then show "lmasm_main line k = Inl (No_such_label 1 nm)
        \<and> lmasm_exit_code (lmasm_main line k) = 1"
      by (simp add: lmasm_exit_code_def)
  qed
  from resolve_Some_iff [of labels nm a] resolve_None_iff [of labels nm]
    resolve_append [of labels later nm] p1 parse_addr_token [OF tok, of labels l]
    p2 [of conf l f] m
  show ?thesis by blast
qed

theorem resolve_first_definition_witness:
  "lmasm_main ('' BRA NOPE'' @ [newline]) 3 = Inl (No_such_label 1 ''NOPE'')
   \<and> lmasm_exit_code (lmasm_main ('' BRA NOPE'' @ [newline]) 3) = 1
   \<and> lmasm_main ('' DAT NOPE'' @ [newline]) 3 = Inl (No_such_label 1 ''NOPE'')
   \<and> resolve [\<lparr>label_name = ''X'', label_addr = 3\<rparr>, \<lparr>label_name = ''Y'', label_addr = 4\<rparr>,
               \<lparr>label_name = ''X'', label_addr = 9\<rparr>] ''X'' = Some 3
   \<and> pass1 duplicate_labels 0 0 [] =
        Inr (3, [\<lparr>label_name = ''X'', label_addr = 0\<rparr>, \<lparr>label_name = ''X'', label_addr = 1\<rparr>])
   \<and> lmasm_main duplicate_labels 9 = Inr \<lparr>written = [0, 0, 1, 0, 0, 2, 5, 0, 0], room = 0\<rparr>"
proof -
  have t1: "label_token ''NOPE'' [newline]" and t2: "label_token ''X'' []"
    by (simp_all add: label_token_def ctype_defs MAX_LABEL_LEN_def)
  have sh: "list_all islabel []" "list_all isblank '' ''" "'' '' \<noteq> []"
    by (simp_all add: ctype_defs)
  have af: "op_arg_format BRA \<noteq> NO_ARGUMENT" "op_arg_format DAT \<noteq> NO_ARGUMENT"
    by (simp_all add: BRA_def DAT_def mk_opcode_def)
  have p: "pass1 ('' BRA NOPE'' @ [newline]) 0 0 [] = Inr (1, [])"
    "pass1 ('' DAT NOPE'' @ [newline]) 0 0 [] = Inr (1, [])"
    by (simp_all add: ctype_defs)
  note a = resolve_first_definition [OF t1 sh find_BRA af(1) sh(2,3) refl,
      where labels = "[]" and n = 1 and k = 3 and a = 0
      and later = "[]" and ca = 0 and l = 0 and conf = "mk_conf 3" and f = three_bytes_room]
  note d = resolve_first_definition [OF t1 sh find_DAT af(2) sh(2,3) refl,
      where labels = "[]" and n = 1 and k = 3 and a = 0
      and later = "[]" and ca = 0 and l = 0 and conf = "mk_conf 3" and f = three_bytes_room]
  note b = resolve_first_definition [OF t2 sh find_BRA af(1) sh(2,3) refl,
      where labels = "[\<lparr>label_name = ''X'', label_addr = 3\<rparr>, \<lparr>label_name = ''Y'', label_addr = 4\<rparr>]"
        and later = "[\<lparr>label_name = ''X'', label_addr = 9\<rparr>]" and a = 3 and n = 0 and k = 0
        and ca = 0 and l = 0 and conf = "mk_conf 3" and f = three_bytes_room]
  have w1: "lmasm_main ('' BRA NOPE'' @ [newline]) 3 = Inl (No_such_label 1 ''NOPE'')
   \<and> lmasm_exit_code (lmasm_main ('' BRA NOPE'' @ [newline]) 3) = 1"
    using a p by (simp add: lmasm_exit_code_def del: pass1.simps pass2.simps)
  have w1': "lmasm_main ('' DAT NOPE'' @ [newline]) 3 = Inl (No_such_label 1 ''NOPE'')"
    using d p by (simp add: lmasm_exit_code_def del: pass1.simps pass2.simps)
  have w2: "resolve [\<lparr>label_name = ''X'', label_addr = 3\<rparr>, \<lparr>label_name = ''Y'', label_addr = 4\<rparr>,
               \<lparr>label_name = ''X'', label_addr = 9\<rparr>] ''X'' = Some 3"
    using b by (simp del: pass1.simps pass2.simps)
  have w3: "pass1 duplicate_labels 0 0 [] =
        Inr (3, [\<lparr>label_name = ''X'', label_addr = 0\<rparr>, \<lparr>label_name = ''X'', label_addr = 1\<rparr>])"
    by (simp add: duplicate_labels_def ctype_defs lmasm_defs)
  have w4: "lmasm_main duplicate_labels 9 = Inr \<lparr>written = [0, 0, 1, 0, 0, 2, 5, 0, 0], room = 0\<rparr>"
    by (simp add: duplicate_labels_def ctype_defs lmasm_defs mk_conf_3 encode_decimal_3
        c_div_def c_mod_def del: encode_decimal.simps)
  from w1 w1' w2 w3 w4 show ?thesis by blast
qed

subsection \<open>The length check (C3)\<close>

text \<open>
  C3 says that the length check fails exactly when the mailbox count exceeds
  \<open>max_addr + 1\<close>, so that a source of exactly \<open>max_addr + 1\<close> mailboxes passes. The
  check after Pass 1 is \<^verbatim>\<open>cur_addr > conf.max_addr\<close>: it compares the number of
  mailboxes with the highest address. A source of exactly \<open>max_addr + 1 = 100\<close>
  instruction lines allocates 100 mailboxes, which the machine has, and is rejected with
  "Program is too long. 100 mailboxes, max 99" and exit code 1.
\<close>

theorem hundred_mailboxes_rejected:
  "pass1 hundred_instructions 0 0 [] = Inr (100, [])
   \<and> lmasm_main hundred_instructions rm = Inl (Program_too_long 100 99)
   \<and> lmasm_exit_code (lmasm_main hundred_instructions rm) = 1"
proof -
  have p1: "pass1 hundred_instructions 0 0 [] = Inr (100, [])"
    using pass1_instruction_lines [of 100 "[]" 0 0 "[]"]
    by (simp add: hundred_instructions_def)
  then show ?thesis
    by (simp add: lmasm_main_def mk_conf_3 lmasm_exit_code_def)
qed

subsection \<open>Scenario 1 (C4)\<close>

text \<open>
  C4 as stated assembles the source \<^verbatim>\<open>LDA FIVE\nOUT\nHLT\nFIVE DAT 5\<close>. A line that
  starts in the first column starts with a label, in both passes: Pass 1 records
  \<^verbatim>\<open>LDA\<close> as a label, and Pass 2 skips it, reads \<^verbatim>\<open>FIV\<close> as the mnemonic and stops
  on the \<^verbatim>\<open>E\<close> that follows.
\<close>

theorem scenario1_column0_fails:
  "lmasm_main scenario1_column0 12 = Inl (Opcode_too_long 1)"
  by (simp add: scenario1_column0_def ctype_defs lmasm_defs mk_conf_3)

text \<open>
  C4, amended. With the three unlabelled instructions indented by a blank, the source
  assembles (given room for 12 bytes) to exactly 4 mailboxes of 3 bytes; the last three
  bytes are 0,0,5 and mailbox 3 loads as 5; and the emulator, given at least 3 turns,
  prints 5 after its banner and exits with code 0, whatever its input.
\<close>

theorem scenario1_indented_runs:
  "lmasm_main scenario1_indented (12 + k) = Inr \<lparr>written = scenario1_image, room = k\<rparr>
   \<and> length scenario1_image = 4 * NUM_DIGITS
   \<and> drop (3 * NUM_DIGITS) scenario1_image = [0, 0, 5]
   \<and> (\<exists>m. load_loop scenario1_image 0 (replicate NUM_MAILBOXES 0) = Inr (m, 4 * NUM_DIGITS)
          \<and> m ! 3 = 5)
   \<and> lmc_main scenario1_image False inp (3 + n) =
        Some (Inr (0, \<lparr>stdin = inp, stdout = [Loaded 4, Number 5], stderr = []\<rparr>))"
proof -
  have asm: "lmasm_main scenario1_indented (12 + k) = Inr \<lparr>written = scenario1_image, room = k\<rparr>"
    by (simp add: scenario1_indented_def scenario1_image_def ctype_defs lmasm_defs mk_conf_3
        encode_decimal_3 c_div_def c_mod_def del: encode_decimal.simps)
  have img: "length scenario1_image = 4 * NUM_DIGITS"
    "drop (3 * NUM_DIGITS) scenario1_image = [0, 0, 5]"
    by (simp_all add: scenario1_image_def NUM_DIGITS_def)
  have "case load_loop scenario1_image 0 (replicate NUM_MAILBOXES 0) of
          Inl f \<Rightarrow> False | Inr (m, i) \<Rightarrow> i = 4 * NUM_DIGITS \<and> m ! 3 = 5"
    by code_simp
  then have ld: "\<exists>m. load_loop scenario1_image 0 (replicate NUM_MAILBOXES 0) = Inr (m, 4 * NUM_DIGITS)
          \<and> m ! 3 = 5"
    by (auto split: sum.splits simp del: load_loop.simps)
  have run3: "lmc_main scenario1_image False inp 3 =
        Some (Inr (0, \<lparr>stdin = inp, stdout = [Loaded 4, Number 5], stderr = []\<rparr>))"
    by code_simp
  have run: "lmc_main scenario1_image False inp (3 + n) =
        Some (Inr (0, \<lparr>stdin = inp, stdout = [Loaded 4, Number 5], stderr = []\<rparr>))"
    using run3 by (rule lmc_main_mono)
  from asm img ld run show ?thesis by (intro conjI)
qed


subsection \<open>Add and subtract wrap around (C5)\<close>

text \<open>
  C5. With the accumulator \<open>a\<close> and the addressed mailbox \<open>v\<close> both in
  \<open>[0, MAX_VALUE]\<close>: \<^verbatim>\<open>lmc_add\<close> sets the negative flag and subtracts
  \<open>MAX_VALUE + 1\<close> exactly when \<open>a + v\<close> exceeds \<open>MAX_VALUE\<close>, and clears the flag
  otherwise; \<^verbatim>\<open>lmc_sub\<close> sets the flag and adds \<open>MAX_VALUE + 1\<close> exactly when
  \<open>a - v\<close> is negative, and clears it otherwise; both leave the accumulator in
  \<open>[0, MAX_VALUE]\<close>, return normally and leave memory unchanged.
\<close>

theorem lmc_add_sub_wraparound:
  assumes a: "a = cpu_a (cpu s)" and v: "v = mailboxes s ! nat (cpu_addr (cpu s))"
    and addr: "0 \<le> cpu_addr (cpu s)" "cpu_addr (cpu s) < int NUM_MAILBOXES"
    and ra: "0 \<le> a" "a \<le> MAX_VALUE" and rv: "0 \<le> v" "v \<le> MAX_VALUE"
  shows "(\<exists>s'. lmc_add s = Inr s' \<and> mailboxes s' = mailboxes s
            \<and> cpu_neg (cpu s') = (a + v > MAX_VALUE)
            \<and> cpu_a (cpu s') = (if a + v > MAX_VALUE then a + v - (MAX_VALUE + 1) else a + v)
            \<and> 0 \<le> cpu_a (cpu s') \<and> cpu_a (cpu s') \<le> MAX_VALUE)
       \<and> (\<exists>s'. lmc_sub s = Inr s' \<and> mailboxes s' = mailboxes s
            \<and> cpu_neg (cpu s') = (a - v < 0)
            \<and> cpu_a (cpu s') = (if a - v < 0 then a - v + (MAX_VALUE + 1) else a - v)
            \<and> 0 \<le> cpu_a (cpu s') \<and> cpu_a (cpu s') \<le> MAX_VALUE)"
proof -
  have rd: "mb_read (mailboxes s) (cpu_addr (cpu s)) = Inr v"
    using addr v by (simp add: mb_read_def)
  have bounds: "a + v \<le> INT_MAX" "INT_MIN \<le> a + v" "a - v \<le> INT_MAX" "INT_MIN \<le> a - v"
    using ra rv by (simp_all add: INT_MAX_def INT_MIN_def MAX_VALUE_def)
  have add: "\<exists>s'. lmc_add s = Inr s' \<and> mailboxes s' = mailboxes s
            \<and> cpu_neg (cpu s') = (a + v > MAX_VALUE)
            \<and> cpu_a (cpu s') = (if a + v > MAX_VALUE then a + v - (MAX_VALUE + 1) else a + v)
            \<and> 0 \<le> cpu_a (cpu s') \<and> cpu_a (cpu s') \<le> MAX_VALUE"
    using rd bounds ra rv a by (auto simp: lmc_add_def Let_def MAX_VALUE_def)
  have sub: "\<exists>s'. lmc_sub s = Inr s' \<and> mailboxes s' = mailboxes s
            \<and> cpu_neg (cpu s') = (a - v < 0)
            \<and> cpu_a (cpu s') = (if a - v < 0 then a - v + (MAX_VALUE + 1) else a - v)
            \<and> 0 \<le> cpu_a (cpu s') \<and> cpu_a (cpu s') \<le> MAX_VALUE"
    using rd bounds ra rv a by (auto simp: lmc_sub_def Let_def MAX_VALUE_def)
  from add sub show ?thesis by blast
qed

theorem lmc_add_sub_wraparound_witness:
  "(\<exists>s'. lmc_add wrap_state = Inr s' \<and> cpu_neg (cpu s') \<and> cpu_a (cpu s') = 200)
   \<and> (\<exists>s'. lmc_sub wrap_state = Inr s' \<and> cpu_neg (cpu s') \<and> cpu_a (cpu s') = 800)"
proof -
  have a: "500 = cpu_a (cpu wrap_state)"
    by (simp add: wrap_state_def cpu0_def)
  have ad: "cpu_addr (cpu wrap_state) = 7"
    by (simp add: wrap_state_def cpu0_def)
  have "(replicate NUM_MAILBOXES (0::int))[7 := 700] ! 7 = 700"
    by (rule nth_list_update_eq) (simp add: NUM_MAILBOXES_def)
  then have v: "700 = mailboxes wrap_state ! nat (cpu_addr (cpu wrap_state))"
    by (simp add: ad) (simp add: wrap_state_def)
  have r: "0 \<le> cpu_addr (cpu wrap_state)" "cpu_addr (cpu wrap_state) < int NUM_MAILBOXES"
    "(0::int) \<le> 500" "500 \<le> MAX_VALUE" "(0::int) \<le> 700" "700 \<le> MAX_VALUE"
    by (simp_all add: ad NUM_MAILBOXES_def MAX_VALUE_def)
  show ?thesis
    using lmc_add_sub_wraparound [OF a v r] by (auto simp: MAX_VALUE_def)
qed

subsection \<open>Bad instructions stop the machine (C6)\<close>

text \<open>
  C6. In a machine that has not halted and fetches inside memory, when the fetched word
  decodes to opcode 4, to an opcode above 9, or to opcode 9 with an address field other
  than 1 and 2, the turn of the loop appends the dump of instruction, a, pc, opcode,
  addr, neg and halt to the error stream, sets \<^verbatim>\<open>halted\<close> and \<^verbatim>\<open>error\<close>, changes
  neither memory nor the other streams, and the loop ends after this one fetch with
  exit status 1. In particular an image whose first mailbox decodes to opcode 4 makes
  \<^verbatim>\<open>main\<close> return 1 after the first fetch, with the dump as the only error output.
\<close>

theorem bad_instruction_stops:
  assumes run: "\<not> cpu_halted (cpu s)"
    and pc: "0 \<le> cpu_pc (cpu s)" "cpu_pc (cpu s) < int NUM_MAILBOXES"
    and ins: "ins = mailboxes s ! nat (cpu_pc (cpu s))"
    and opc: "opc = c_div ins (int NUM_MAILBOXES)" and ad: "ad = c_mod ins (int NUM_MAILBOXES)"
    and bad: "opc = 4 \<or> opc > 9 \<or> (opc = 9 \<and> ad \<noteq> 1 \<and> ad \<noteq> 2)"
  shows "(\<exists>s' io'. lmc_cycle s io = Some (Inr (s', io'))
          \<and> cpu_halted (cpu s') \<and> cpu_error (cpu s')
          \<and> stderr io' = stderr io @
               [Bad_instruction_dump ins (cpu_a (cpu s)) (cpu_pc (cpu s) + 1) opc ad
                  (cpu_neg (cpu s)) False]
          \<and> stdout io' = stdout io \<and> stdin io' = stdin io
          \<and> mailboxes s' = mailboxes s
          \<and> cpu_instruction (cpu s') = ins \<and> cpu_pc (cpu s') = cpu_pc (cpu s) + 1
          \<and> lmc_loop (Suc n) s io = Some (Inr (s', io'))
          \<and> lmc_exit_status s' = 1)
      \<and> (\<forall>img m i inp. load_loop img 0 (replicate NUM_MAILBOXES 0) = Inr (m, i)
             \<and> i mod NUM_DIGITS = 0 \<and> c_div (m ! 0) (int NUM_MAILBOXES) = 4 \<longrightarrow>
           lmc_main img False inp (Suc n) =
             Some (Inr (1, \<lparr>stdin = inp, stdout = [Loaded (i div NUM_DIGITS)],
                            stderr = [Bad_instruction_dump (m ! 0) 0 1 4
                                        (c_mod (m ! 0) (int NUM_MAILBOXES)) False False]\<rparr>)))"
proof -
  have stop: "lmc_loop (Suc k) t io1 = Some (Inr (bad_instruction (decoded t i1) io1))"
    if "\<not> cpu_halted (cpu t)"
      and "lmc_cycle t io1 = Some (Inr (bad_instruction (decoded t i1) io1))"
    for k t io1 i1
    using that by (cases k) (simp_all add: bad_instruction_def Let_def)
  have cyc: "lmc_cycle s io = Some (Inr (bad_instruction (decoded s ins) io))"
    using pc ins opc ad bad by (rule lmc_cycle_bad)
  have first: "\<exists>s' io'. lmc_cycle s io = Some (Inr (s', io'))
          \<and> cpu_halted (cpu s') \<and> cpu_error (cpu s')
          \<and> stderr io' = stderr io @
               [Bad_instruction_dump ins (cpu_a (cpu s)) (cpu_pc (cpu s) + 1) opc ad
                  (cpu_neg (cpu s)) False]
          \<and> stdout io' = stdout io \<and> stdin io' = stdin io
          \<and> mailboxes s' = mailboxes s
          \<and> cpu_instruction (cpu s') = ins \<and> cpu_pc (cpu s') = cpu_pc (cpu s) + 1
          \<and> lmc_loop (Suc n) s io = Some (Inr (s', io'))
          \<and> lmc_exit_status s' = 1"
    using run stop [OF run cyc, of n]
    by (simp add: cyc) (simp add: bad_instruction_def decoded_def Let_def opc ad lmc_exit_status_def)
  have second: "lmc_main img False inp (Suc n) =
             Some (Inr (1, \<lparr>stdin = inp, stdout = [Loaded (i div NUM_DIGITS)],
                            stderr = [Bad_instruction_dump (m ! 0) 0 1 4
                                        (c_mod (m ! 0) (int NUM_MAILBOXES)) False False]\<rparr>))"
    if ld: "load_loop img 0 (replicate NUM_MAILBOXES 0) = Inr (m, i)"
      and mult: "i mod NUM_DIGITS = 0" and four: "c_div (m ! 0) (int NUM_MAILBOXES) = 4"
    for img m i inp
  proof -
    let ?t = "\<lparr>mailboxes = m, cpu = cpu0\<rparr>"
    let ?io = "\<lparr>stdin = inp, stdout = [Loaded (i div NUM_DIGITS)], stderr = []\<rparr>"
    have nh: "\<not> cpu_halted (cpu ?t)" by (simp add: cpu0_def)
    have c: "lmc_cycle ?t ?io = Some (Inr (bad_instruction (decoded ?t (m ! 0)) ?io))"
    proof (rule lmc_cycle_bad)
      show "0 \<le> cpu_pc (cpu ?t)" "cpu_pc (cpu ?t) < int NUM_MAILBOXES"
        by (simp_all add: cpu0_def NUM_MAILBOXES_def)
      show "m ! 0 = mailboxes ?t ! nat (cpu_pc (cpu ?t))"
        by (simp add: cpu0_def)
      show "c_div (m ! 0) (int NUM_MAILBOXES) = c_div (m ! 0) (int NUM_MAILBOXES)"
        "c_mod (m ! 0) (int NUM_MAILBOXES) = c_mod (m ! 0) (int NUM_MAILBOXES)"
        by (rule refl)+
      show "c_div (m ! 0) (int NUM_MAILBOXES) = 4 \<or> c_div (m ! 0) (int NUM_MAILBOXES) > 9
          \<or> (c_div (m ! 0) (int NUM_MAILBOXES) = 9 \<and> c_mod (m ! 0) (int NUM_MAILBOXES) \<noteq> 1
              \<and> c_mod (m ! 0) (int NUM_MAILBOXES) \<noteq> 2)"
        using four by simp
    qed
    have "lmc_loop (Suc n) ?t ?io = Some (Inr (bad_instruction (decoded ?t (m ! 0)) ?io))"
      using nh c by (rule stop)
    then show ?thesis
      using ld mult four
      by (simp add: lmc_main_def bad_instruction_def decoded_def Let_def lmc_exit_status_def
          cpu0_def del: lmc_loop.simps)
  qed
  show ?thesis
  proof (intro conjI allI impI, goal_cases)
    case 1
    show ?case by (rule first)
  next
    case (2 img m i inp)
    then show ?case by (intro second) simp_all
  qed
qed


theorem bad_instruction_stops_witness:
  "(\<exists>s' io'. lmc_cycle bad_io_state console0 = Some (Inr (s', io'))
       \<and> cpu_halted (cpu s') \<and> cpu_error (cpu s')
       \<and> stderr io' = [Bad_instruction_dump 903 0 1 9 3 False False]
       \<and> lmc_loop 1 bad_io_state console0 = Some (Inr (s', io'))
       \<and> lmc_exit_status s' = 1)
   \<and> lmc_main [4, 0, 0] False [] 1 =
        Some (Inr (1, \<lparr>stdin = [], stdout = [Loaded 1],
                       stderr = [Bad_instruction_dump 400 0 1 4 0 False False]\<rparr>))"
proof -
  have len: "0 < length (replicate NUM_MAILBOXES (0::int))"
    by (simp add: NUM_MAILBOXES_def)
  have cpu: "cpu bad_io_state = cpu0" and mem: "mailboxes bad_io_state ! 0 = 903"
    using nth_list_update_eq [OF len, of 903] by (simp_all add: bad_io_state_def)
  have h: "\<not> cpu_halted (cpu bad_io_state)"
    "0 \<le> cpu_pc (cpu bad_io_state)" "cpu_pc (cpu bad_io_state) < int NUM_MAILBOXES"
    "903 = mailboxes bad_io_state ! nat (cpu_pc (cpu bad_io_state))"
    "9 = c_div 903 (int NUM_MAILBOXES)" "3 = c_mod 903 (int NUM_MAILBOXES)"
    "(9::int) = 4 \<or> (9::int) > 9 \<or> ((9::int) = 9 \<and> (3::int) \<noteq> 1 \<and> (3::int) \<noteq> 2)"
    by (simp_all add: cpu mem cpu0_def NUM_MAILBOXES_def c_div_def c_mod_def)
  have ld: "load_loop [4, 0, 0] 0 (replicate NUM_MAILBOXES 0) =
      Inr ((replicate NUM_MAILBOXES 0)[0 := 400], 3)"
    by (simp add: load_loop_three NUM_MAILBOXES_def del: load_loop.simps)
  have m0: "(replicate NUM_MAILBOXES (0::int))[0 := 400] ! 0 = 400"
    using len by (rule nth_list_update_eq)
  have four: "c_div 400 (int NUM_MAILBOXES) = 4" "c_mod 400 (int NUM_MAILBOXES) = 0"
    by (simp_all add: c_div_def c_mod_def NUM_MAILBOXES_def)
  note th = bad_instruction_stops [OF h, of console0 0]
  from th have a: "\<exists>s' io'. lmc_cycle bad_io_state console0 = Some (Inr (s', io'))
       \<and> cpu_halted (cpu s') \<and> cpu_error (cpu s')
       \<and> stderr io' = [Bad_instruction_dump 903 0 1 9 3 False False]
       \<and> lmc_loop 1 bad_io_state console0 = Some (Inr (s', io'))
       \<and> lmc_exit_status s' = 1"
    by (auto simp: cpu cpu0_def console0_def simp del: lmc_loop.simps)
  note u = th [THEN conjunct2, rule_format,
      of "[4, 0, 0]" "(replicate NUM_MAILBOXES 0)[0 := 400]" 3 "[]"]
  from u ld have b: "lmc_main [4, 0, 0] False [] 1 =
        Some (Inr (1, \<lparr>stdin = [], stdout = [Loaded 1],
                       stderr = [Bad_instruction_dump 400 0 1 4 0 False False]\<rparr>))"
    by (simp add: m0 four NUM_DIGITS_def del: load_loop.simps lmc_loop.simps)
  from a b show ?thesis by (rule conjI)
qed

subsection \<open>The fetch is not range-checked (C7)\<close>

text \<open>
  C7 as stated says that the fetch is guarded and that a program counter past the last
  mailbox stops the machine with a fatal error. The loop has no such guard: the image of
  100 load instructions runs 100 turns, and the next fetch reads
  \<^verbatim>\<open>mailboxes[100]\<close>, outside the array.
\<close>

theorem fetch_guard_counterexample:
  "lmc_main no_halt_image False [] 101 = Some (Inl (Read_outside_mailboxes 100))"
  by code_simp

text \<open>
  C7, amended. The fetch \<^verbatim>\<open>mailboxes[pc++]\<close> is not guarded. In a machine that has not
  halted, a turn of the loop reads outside the memory array exactly when the program
  counter is outside \<open>[0, NUM_MAILBOXES)\<close> (the operation handlers, whose address field
  is a remainder modulo \<open>NUM_MAILBOXES\<close>, stay inside); with \<open>pc \<ge> NUM_MAILBOXES\<close>
  the turn and the loop end in the read of \<^verbatim>\<open>mailboxes[pc]\<close>, not in an error status.
\<close>

theorem fetch_unguarded:
  assumes "\<not> cpu_halted (cpu s)"
  shows "((\<exists>i. lmc_cycle s io = Some (Inl (Read_outside_mailboxes i))) \<longleftrightarrow>
           \<not> (0 \<le> cpu_pc (cpu s) \<and> cpu_pc (cpu s) < int NUM_MAILBOXES))
       \<and> (int NUM_MAILBOXES \<le> cpu_pc (cpu s) \<longrightarrow>
           lmc_cycle s io = Some (Inl (Read_outside_mailboxes (cpu_pc (cpu s))))
         \<and> lmc_loop (Suc n) s io = Some (Inl (Read_outside_mailboxes (cpu_pc (cpu s)))))"
proof -
  have out: "lmc_cycle s io = Some (Inl (Read_outside_mailboxes (cpu_pc (cpu s))))"
    if "\<not> (0 \<le> cpu_pc (cpu s) \<and> cpu_pc (cpu s) < int NUM_MAILBOXES)"
    using that by (auto simp: mb_read_def lmc_cycle_def)
  have "(\<exists>i. lmc_cycle s io = Some (Inl (Read_outside_mailboxes i))) \<longleftrightarrow>
           \<not> (0 \<le> cpu_pc (cpu s) \<and> cpu_pc (cpu s) < int NUM_MAILBOXES)"
    using out lmc_cycle_reads_inside [of s io] by blast
  moreover have "int NUM_MAILBOXES \<le> cpu_pc (cpu s) \<longrightarrow>
           lmc_cycle s io = Some (Inl (Read_outside_mailboxes (cpu_pc (cpu s))))
         \<and> lmc_loop (Suc n) s io = Some (Inl (Read_outside_mailboxes (cpu_pc (cpu s))))"
    using assms out by simp
  ultimately show ?thesis by (rule conjI)
qed

theorem fetch_unguarded_witness:
  "lmc_cycle past_end_state console0 = Some (Inl (Read_outside_mailboxes 100))
   \<and> lmc_loop 1 past_end_state console0 = Some (Inl (Read_outside_mailboxes 100))"
proof -
  have cpu: "cpu past_end_state = cpu0\<lparr>cpu_pc := 100\<rparr>"
    by (simp add: past_end_state_def)
  have h: "\<not> cpu_halted (cpu past_end_state)"
    by (simp add: cpu cpu0_def)
  show ?thesis
    using fetch_unguarded [OF h, of console0 0]
    by (simp add: cpu NUM_MAILBOXES_def del: lmc_loop.simps)
qed

subsection \<open>Boundaries of the range checks (C8)\<close>

text \<open>
  C8. In the configuration for \<open>nd\<close> digits, \<^verbatim>\<open>lmasm_write_dat\<close> encodes the value
  \<open>max_dat\<close> and rejects \<open>max_dat + 1\<close> with "DAT value out of range";
  \<^verbatim>\<open>lmasm_write_op\<close> encodes the address \<open>max_addr\<close> and rejects \<open>max_addr + 1\<close>
  with "mailbox out of range". For 3 digits the bounds are 999 and 99. In Pass 2 a line
  \<^verbatim>\<open>DAT 1000\<close> or \<^verbatim>\<open>LDA 100\<close> ends the loop with the error whatever follows it,
  and \<^verbatim>\<open>main\<close> then returns 1; a line \<^verbatim>\<open>DAT 999\<close> or \<^verbatim>\<open>LDA 99\<close> emits its
  mailbox and the loop goes on. (The device has room for the bytes written.)
\<close>

theorem range_check_boundaries:
  assumes nd: "1 \<le> nd" "nd \<le> MAX_NUM_DIGITS" and rm: "nd \<le> room f"
    and conf: "conf = mk_conf nd"
  shows "lmasm_write_dat self conf (max_dat conf) f =
           Inr \<lparr>written = written f @ map word_of_int (be_digits nd (max_dat conf)),
                room = room f - nd\<rparr>
     \<and> lmasm_write_dat self conf (max_dat conf + 1) f = Inl (Dat_out_of_range (max_dat conf + 1))
     \<and> lmasm_write_op self conf (max_addr conf) f =
           Inr \<lparr>written = written f @
                          map word_of_int (op_code self # be_digits (nd - 1) (max_addr conf)),
                room = room f - nd\<rparr>
     \<and> lmasm_write_op self conf (max_addr conf + 1) f =
           Inl (Mailbox_out_of_range (op_name self) (max_addr conf + 1))
     \<and> max_dat (mk_conf 3) = 999 \<and> max_addr (mk_conf 3) = 99
     \<and> pass2 (mk_conf 3) labels ('' DAT 1000'' @ newline # rest) l g =
           Inl (Dat_out_of_range 1000)
     \<and> pass2 (mk_conf 3) labels ('' LDA 100'' @ newline # rest) l g =
           Inl (Mailbox_out_of_range (Some ''LDA'') 100)
     \<and> (3 \<le> room g \<longrightarrow>
           pass2 (mk_conf 3) labels ('' DAT 999'' @ newline # rest) l g =
             pass2 (mk_conf 3) labels rest (l + 1)
               \<lparr>written = written g @ [9, 9, 9], room = room g - 3\<rparr>
         \<and> pass2 (mk_conf 3) labels ('' LDA 99'' @ newline # rest) l g =
             pass2 (mk_conf 3) labels rest (l + 1)
               \<lparr>written = written g @ [5, 9, 9], room = room g - 3\<rparr>)
     \<and> (pass1 ('' DAT 1000'' @ newline # rest) 0 0 [] = Inr (n, labels) \<and> n \<le> 99 \<longrightarrow>
           lmasm_main ('' DAT 1000'' @ newline # rest) k = Inl (Dat_out_of_range 1000)
         \<and> lmasm_exit_code (lmasm_main ('' DAT 1000'' @ newline # rest) k) = 1)
     \<and> (pass1 ('' LDA 100'' @ newline # rest) 0 0 [] = Inr (n, labels) \<and> n \<le> 99 \<longrightarrow>
           lmasm_main ('' LDA 100'' @ newline # rest) k =
             Inl (Mailbox_out_of_range (Some ''LDA'') 100)
         \<and> lmasm_exit_code (lmasm_main ('' LDA 100'' @ newline # rest) k) = 1)"
proof -
  have cf: "num_digits conf = nd" "0 \<le> max_dat conf" "0 \<le> max_addr conf"
    using nd(1) by (simp_all add: conf mk_conf_fields)
  have d1: "lmasm_write_dat self conf (max_dat conf) f =
           Inr \<lparr>written = written f @ map word_of_int (be_digits nd (max_dat conf)),
                room = room f - nd\<rparr>"
    using write_dat_in_range [of "max_dat conf" conf f self] cf nd rm by simp
  have d2: "lmasm_write_dat self conf (max_dat conf + 1) f =
      Inl (Dat_out_of_range (max_dat conf + 1))"
    by (simp add: lmasm_write_dat_def)
  have a1: "lmasm_write_op self conf (max_addr conf) f =
           Inr \<lparr>written = written f @
                          map word_of_int (op_code self # be_digits (nd - 1) (max_addr conf)),
                room = room f - nd\<rparr>"
    using write_op_in_range [of "max_addr conf" conf f self] cf nd rm by simp
  have a2: "lmasm_write_op self conf (max_addr conf + 1) f =
           Inl (Mailbox_out_of_range (op_name self) (max_addr conf + 1))"
    by (simp add: lmasm_write_op_def)
  have c3: "max_dat (mk_conf 3) = 999 \<and> max_addr (mk_conf 3) = 99"
    by (simp add: mk_conf_3)
  have ok: "3 \<le> room g \<longrightarrow>
           pass2 (mk_conf 3) labels ('' DAT 999'' @ newline # rest) l g =
             pass2 (mk_conf 3) labels rest (l + 1)
               \<lparr>written = written g @ [9, 9, 9], room = room g - 3\<rparr>
         \<and> pass2 (mk_conf 3) labels ('' LDA 99'' @ newline # rest) l g =
             pass2 (mk_conf 3) labels rest (l + 1)
               \<lparr>written = written g @ [5, 9, 9], room = room g - 3\<rparr>"
    using pass2_boundary_lines(3,4) [of g labels rest l] by blast
  have m1: "pass1 ('' DAT 1000'' @ newline # rest) 0 0 [] = Inr (n, labels) \<and> n \<le> 99 \<longrightarrow>
           lmasm_main ('' DAT 1000'' @ newline # rest) k = Inl (Dat_out_of_range 1000)
         \<and> lmasm_exit_code (lmasm_main ('' DAT 1000'' @ newline # rest) k) = 1"
    using pass2_boundary_lines(1) [of labels rest 0 "\<lparr>written = [], room = k\<rparr>"]
    by (simp add: lmasm_main_def mk_conf_3 lmasm_exit_code_def del: pass1.simps pass2.simps)
  have m2: "pass1 ('' LDA 100'' @ newline # rest) 0 0 [] = Inr (n, labels) \<and> n \<le> 99 \<longrightarrow>
           lmasm_main ('' LDA 100'' @ newline # rest) k =
             Inl (Mailbox_out_of_range (Some ''LDA'') 100)
         \<and> lmasm_exit_code (lmasm_main ('' LDA 100'' @ newline # rest) k) = 1"
    using pass2_boundary_lines(2) [of labels rest 0 "\<lparr>written = [], room = k\<rparr>"]
    by (simp add: lmasm_main_def mk_conf_3 lmasm_exit_code_def del: pass1.simps pass2.simps)
  from d1 d2 a1 a2 c3 pass2_boundary_lines(1) [of labels rest l g]
    pass2_boundary_lines(2) [of labels rest l g] ok m1 m2
  show ?thesis by blast
qed


theorem range_check_boundaries_witness:
  "lmasm_write_dat LDA (mk_conf 3) 999 three_bytes_room = Inr \<lparr>written = [9, 9, 9], room = 0\<rparr>
   \<and> lmasm_write_dat LDA (mk_conf 3) 1000 three_bytes_room = Inl (Dat_out_of_range 1000)
   \<and> lmasm_write_op LDA (mk_conf 3) 99 three_bytes_room = Inr \<lparr>written = [5, 9, 9], room = 0\<rparr>
   \<and> lmasm_write_op LDA (mk_conf 3) 100 three_bytes_room =
         Inl (Mailbox_out_of_range (Some ''LDA'') 100)
   \<and> pass2 (mk_conf 3) [] ('' DAT 999'' @ [newline]) 0 three_bytes_room =
         Inr \<lparr>written = [9, 9, 9], room = 0\<rparr>
   \<and> lmasm_main ('' DAT 1000'' @ [newline]) 3 = Inl (Dat_out_of_range 1000)
   \<and> lmasm_exit_code (lmasm_main ('' LDA 100'' @ [newline]) 3) = 1"
proof -
  have h: "1 \<le> (3::nat)" "3 \<le> MAX_NUM_DIGITS" "3 \<le> room three_bytes_room"
    "mk_conf 3 = mk_conf 3"
    by (simp_all add: MAX_NUM_DIGITS_def three_bytes_room_def)
  have p: "pass1 ('' DAT 1000'' @ [newline]) 0 0 [] = Inr (1, [])"
    "pass1 ('' LDA 100'' @ [newline]) 0 0 [] = Inr (1, [])"
    by (simp_all add: ctype_defs)
  have ds: "be_digits 3 999 = [9, 9, 9]" "be_digits 2 99 = [9, 9]"
    by (simp_all add: be_digits_def upt_rec numeral_2_eq_2 numeral_3_eq_3)
  note th = range_check_boundaries [OF h, where self = LDA and labels = "[]" and rest = "[]"
      and l = 0 and g = three_bytes_room and n = 1 and k = 3]
  show ?thesis
    using th p
    by (simp add: mk_conf_3 ds three_bytes_room_def LDA_def mk_opcode_def lmasm_exit_code_def
        del: pass1.simps pass2.simps(2))
qed

subsection \<open>HLT and COB are one instruction (C9)\<close>

text \<open>
  C9. The catalogue lookup finds, for the mnemonics HLT and COB, two entries with the
  same writer \<^verbatim>\<open>lmasm_write_op\<close>, the same code 0 and no argument. With operand 0
  both writers emit the same mailbox, \<open>num_digits\<close> zero bytes; a line of Pass 2 with
  one mnemonic gives, whatever follows the mnemonic, the result of the same line with
  the other; the emulator loads the three zero bytes as the word 0; and a machine that
  fetches the word 0 halts with the error flag and the memory as they were.
\<close>

theorem hlt_cob_same_word:
  assumes nd: "1 \<le> nd" "nd \<le> MAX_NUM_DIGITS" and rm: "nd \<le> room f"
  shows "find_opcode OPCODES ''HLT'' = Some HLT \<and> find_opcode OPCODES ''COB'' = Some COB
     \<and> op_write HLT = Write_op \<and> op_write COB = Write_op
     \<and> op_code HLT = 0 \<and> op_code COB = 0
     \<and> op_arg_format HLT = NO_ARGUMENT \<and> op_arg_format COB = NO_ARGUMENT
     \<and> lmasm_write HLT (mk_conf nd) 0 f =
          Inr \<lparr>written = written f @ replicate nd 0, room = room f - nd\<rparr>
     \<and> lmasm_write COB (mk_conf nd) 0 f =
          Inr \<lparr>written = written f @ replicate nd 0, room = room f - nd\<rparr>
     \<and> pass2_line (mk_conf nd) labels ('' HLT'' @ rest) l g =
          pass2_line (mk_conf nd) labels ('' COB'' @ rest) l g
     \<and> load_loop (replicate NUM_DIGITS 0) 0 (replicate NUM_MAILBOXES 0) =
          Inr (replicate NUM_MAILBOXES 0, NUM_DIGITS)
     \<and> (\<not> cpu_halted (cpu s) \<and> 0 \<le> cpu_pc (cpu s) \<and> cpu_pc (cpu s) < int NUM_MAILBOXES
          \<and> mailboxes s ! nat (cpu_pc (cpu s)) = 0 \<longrightarrow>
          lmc_cycle s io = Some (Inr (lmc_halt (decoded s 0), io))
        \<and> lmc_loop (Suc n) s io = Some (Inr (lmc_halt (decoded s 0), io))
        \<and> cpu_halted (cpu (lmc_halt (decoded s 0)))
        \<and> cpu_error (cpu (lmc_halt (decoded s 0))) = cpu_error (cpu s)
        \<and> mailboxes (lmc_halt (decoded s 0)) = mailboxes s)"
proof -
  have flds: "op_write HLT = Write_op \<and> op_write COB = Write_op
     \<and> op_code HLT = 0 \<and> op_code COB = 0
     \<and> op_arg_format HLT = NO_ARGUMENT \<and> op_arg_format COB = NO_ARGUMENT"
    by (simp add: HLT_def COB_def mk_opcode_def)
  have w: "lmasm_write HLT (mk_conf nd) 0 f =
          Inr \<lparr>written = written f @ replicate nd 0, room = room f - nd\<rparr>"
    using nd rm by (rule write_HLT)
  have w': "lmasm_write COB (mk_conf nd) 0 f =
          Inr \<lparr>written = written f @ replicate nd 0, room = room f - nd\<rparr>"
    using w write_HLT_COB [OF nd(1), of f] by simp
  have ln: "pass2_line (mk_conf nd) labels ('' HLT'' @ rest) l g =
          pass2_line (mk_conf nd) labels ('' COB'' @ rest) l g"
    using nd(1) by (rule pass2_line_HLT_COB)
  have "replicate NUM_DIGITS (0::byte) = [0, 0, 0]"
    by (simp add: NUM_DIGITS_def numeral_3_eq_3)
  moreover have "replicate NUM_MAILBOXES (0::int) ! 0 = 0"
    by (simp add: NUM_MAILBOXES_def)
  moreover have "(replicate NUM_MAILBOXES (0::int))[0 := 0] = replicate NUM_MAILBOXES 0"
    by (simp add: list_eq_iff_nth_eq nth_list_update)
  ultimately have ld: "load_loop (replicate NUM_DIGITS 0) 0 (replicate NUM_MAILBOXES 0) =
          Inr (replicate NUM_MAILBOXES 0, NUM_DIGITS)"
    by (simp add: load_loop_three NUM_DIGITS_def del: load_loop.simps)
  have ex: "lmc_cycle s io = Some (Inr (lmc_halt (decoded s 0), io))
        \<and> lmc_loop (Suc n) s io = Some (Inr (lmc_halt (decoded s 0), io))
        \<and> cpu_halted (cpu (lmc_halt (decoded s 0)))
        \<and> cpu_error (cpu (lmc_halt (decoded s 0))) = cpu_error (cpu s)
        \<and> mailboxes (lmc_halt (decoded s 0)) = mailboxes s"
    if "\<not> cpu_halted (cpu s) \<and> 0 \<le> cpu_pc (cpu s) \<and> cpu_pc (cpu s) < int NUM_MAILBOXES
          \<and> mailboxes s ! nat (cpu_pc (cpu s)) = 0"
    using that lmc_cycle_halt(1) [where s = s and io = io]
      lmc_cycle_halt(2) [where s = s and io = io and n = n]
    by (simp add: lmc_halt_def decoded_def del: lmc_loop.simps)
  from ex have ex': "\<not> cpu_halted (cpu s) \<and> 0 \<le> cpu_pc (cpu s) \<and> cpu_pc (cpu s) < int NUM_MAILBOXES
          \<and> mailboxes s ! nat (cpu_pc (cpu s)) = 0 \<longrightarrow>
          lmc_cycle s io = Some (Inr (lmc_halt (decoded s 0), io))
        \<and> lmc_loop (Suc n) s io = Some (Inr (lmc_halt (decoded s 0), io))
        \<and> cpu_halted (cpu (lmc_halt (decoded s 0)))
        \<and> cpu_error (cpu (lmc_halt (decoded s 0))) = cpu_error (cpu s)
        \<and> mailboxes (lmc_halt (decoded s 0)) = mailboxes s"
    by (rule impI)
  from find_HLT_COB flds w w' ln ld ex' show ?thesis
    by blast
qed

theorem hlt_cob_same_word_witness:
  "lmasm_write HLT (mk_conf 3) 0 \<lparr>written = [], room = 3\<rparr> = Inr \<lparr>written = [0, 0, 0], room = 0\<rparr>
   \<and> lmasm_write COB (mk_conf 3) 0 \<lparr>written = [], room = 3\<rparr> = Inr \<lparr>written = [0, 0, 0], room = 0\<rparr>
   \<and> lmc_loop 1 zero_state console0 = Some (Inr (lmc_halt (decoded zero_state 0), console0))
   \<and> cpu_halted (cpu (lmc_halt (decoded zero_state 0)))
   \<and> \<not> cpu_error (cpu (lmc_halt (decoded zero_state 0)))"
proof -
  have h: "1 \<le> (3::nat)" "3 \<le> MAX_NUM_DIGITS" "3 \<le> room \<lparr>written = [], room = 3\<rparr>"
    by (simp_all add: MAX_NUM_DIGITS_def)
  have z: "replicate NUM_MAILBOXES (0::int) ! 0 = 0"
    by (simp add: NUM_MAILBOXES_def)
  have s: "\<not> cpu_halted (cpu zero_state)" "cpu_pc (cpu zero_state) = 0"
    "mailboxes zero_state ! 0 = 0" "\<not> cpu_error (cpu zero_state)"
    using z by (simp_all add: zero_state_def cpu0_def)
  show ?thesis
    using hlt_cob_same_word [OF h, of "[]" "[]" 1 "\<lparr>written = [], room = 3\<rparr>" zero_state
        console0 0] s
    by (simp add: numeral_3_eq_3 NUM_MAILBOXES_def del: lmc_loop.simps load_loop.simps)
qed

subsection \<open>The loader does not bound the image size (C10)\<close>

text \<open>
  C10. The loading loop stays inside \<^verbatim>\<open>mailboxes\<close> exactly on the precondition that
  the image has at most \<open>NUM_MAILBOXES * NUM_DIGITS\<close> bytes: then it returns the memory
  and the byte count, and the only validation that follows is that the count is a
  multiple of \<open>NUM_DIGITS\<close> (an image that passes it is run, whatever its mailbox
  count). On a longer image the loop writes
  \<^verbatim>\<open>mailboxes[NUM_MAILBOXES]\<close>, outside the array, whatever the read-error flag, the
  input and the bound on turns are: no error path reports an image that is too large.
\<close>

theorem loader_unchecked_size:
  "(length img \<le> NUM_MAILBOXES * NUM_DIGITS \<longrightarrow>
      (\<exists>m. load_loop img 0 (replicate NUM_MAILBOXES 0) = Inr (m, length img)
           \<and> length m = NUM_MAILBOXES))
   \<and> (length img \<le> NUM_MAILBOXES * NUM_DIGITS \<and> \<not> read_error
        \<and> length img mod NUM_DIGITS \<noteq> 0 \<longrightarrow>
        lmc_main img read_error inp n =
          Some (Inr (1, \<lparr>stdin = inp, stdout = [], stderr = [Bad_file_size]\<rparr>)))
   \<and> (length img \<le> NUM_MAILBOXES * NUM_DIGITS \<and> \<not> read_error
        \<and> length img mod NUM_DIGITS = 0 \<longrightarrow>
        (\<exists>m. load_loop img 0 (replicate NUM_MAILBOXES 0) = Inr (m, length img)
           \<and> lmc_main img read_error inp n =
               (case lmc_loop n \<lparr>mailboxes = m, cpu = cpu0\<rparr>
                       \<lparr>stdin = inp, stdout = [Loaded (length img div NUM_DIGITS)],
                          stderr = []\<rparr> of
                  None \<Rightarrow> None
                | Some (Inl f) \<Rightarrow> Some (Inl f)
                | Some (Inr (s, io)) \<Rightarrow> Some (Inr (lmc_exit_status s, io)))))
   \<and> (NUM_MAILBOXES * NUM_DIGITS < length img \<longrightarrow>
        load_loop img 0 (replicate NUM_MAILBOXES 0) =
          Inl (Write_outside_mailboxes (int NUM_MAILBOXES))
      \<and> lmc_main img read_error inp n =
          Some (Inl (Write_outside_mailboxes (int NUM_MAILBOXES))))"
proof (intro conjI impI)
  assume "length img \<le> NUM_MAILBOXES * NUM_DIGITS"
  then show "\<exists>m. load_loop img 0 (replicate NUM_MAILBOXES 0) = Inr (m, length img)
           \<and> length m = NUM_MAILBOXES"
    using load_loop_fits [of 0 img "replicate NUM_MAILBOXES 0"] by simp
next
  assume a: "length img \<le> NUM_MAILBOXES * NUM_DIGITS \<and> \<not> read_error
        \<and> length img mod NUM_DIGITS \<noteq> 0"
  then obtain m where "load_loop img 0 (replicate NUM_MAILBOXES 0) = Inr (m, length img)"
    using load_loop_fits [of 0 img "replicate NUM_MAILBOXES 0"] by auto
  with a show "lmc_main img read_error inp n =
          Some (Inr (1, \<lparr>stdin = inp, stdout = [], stderr = [Bad_file_size]\<rparr>))"
    by (simp add: lmc_main_def)
next
  assume a: "length img \<le> NUM_MAILBOXES * NUM_DIGITS \<and> \<not> read_error
        \<and> length img mod NUM_DIGITS = 0"
  then obtain m where m: "load_loop img 0 (replicate NUM_MAILBOXES 0) = Inr (m, length img)"
    using load_loop_fits [of 0 img "replicate NUM_MAILBOXES 0"] by auto
  with a have "lmc_main img read_error inp n =
               (case lmc_loop n \<lparr>mailboxes = m, cpu = cpu0\<rparr>
                       \<lparr>stdin = inp, stdout = [Loaded (length img div NUM_DIGITS)],
                          stderr = []\<rparr> of
                  None \<Rightarrow> None
                | Some (Inl f) \<Rightarrow> Some (Inl f)
                | Some (Inr (s, io)) \<Rightarrow> Some (Inr (lmc_exit_status s, io)))"
    by (simp add: lmc_main_def del: lmc_loop.simps)
  with m show "\<exists>m. load_loop img 0 (replicate NUM_MAILBOXES 0) = Inr (m, length img)
           \<and> lmc_main img read_error inp n =
               (case lmc_loop n \<lparr>mailboxes = m, cpu = cpu0\<rparr>
                       \<lparr>stdin = inp, stdout = [Loaded (length img div NUM_DIGITS)],
                          stderr = []\<rparr> of
                  None \<Rightarrow> None
                | Some (Inl f) \<Rightarrow> Some (Inl f)
                | Some (Inr (s, io)) \<Rightarrow> Some (Inr (lmc_exit_status s, io)))"
    by blast
next
  assume "NUM_MAILBOXES * NUM_DIGITS < length img"
  then show ld: "load_loop img 0 (replicate NUM_MAILBOXES 0) =
          Inl (Write_outside_mailboxes (int NUM_MAILBOXES))"
    by (intro load_loop_overrun) simp_all
  then show "lmc_main img read_error inp n =
          Some (Inl (Write_outside_mailboxes (int NUM_MAILBOXES)))"
    by (simp add: lmc_main_def)
qed

theorem loader_unchecked_size_witness:
  "lmc_main (replicate 301 0) False [] 0 = Some (Inl (Write_outside_mailboxes 100))
   \<and> lmc_main [1, 2] False [] 0 =
        Some (Inr (1, \<lparr>stdin = [], stdout = [], stderr = [Bad_file_size]\<rparr>))
   \<and> (\<exists>m. load_loop (replicate 300 9) 0 (replicate NUM_MAILBOXES 0) = Inr (m, 300)
          \<and> length m = NUM_MAILBOXES)"
  using loader_unchecked_size [of "replicate 301 0" False "[]" 0]
    loader_unchecked_size [of "[1, 2]" False "[]" 0]
    loader_unchecked_size [of "replicate 300 9" False "[]" 0]
  by (simp add: NUM_MAILBOXES_def NUM_DIGITS_def del: load_loop.simps)

end
